theory Spec2Isabelle
  imports Complex_Main
begin

section \<open>Memory, errors and control flow of \<^verbatim>\<open>getF.c\<close>\<close>

text \<open>
  The C file works on arrays behind pointers: the data of R objects handed in by the
  caller, copies made with \<^verbatim>\<open>duplicate\<close>, and buffers from \<^verbatim>\<open>R_alloc\<close>
  and \<^verbatim>\<open>allocMatrix\<close>.  The memory is modelled as a store of arrays.  An address is an
  index into the store; allocation appends a new array, so a fresh address never aliases
  an older one.  Arrays of \<^verbatim>\<open>double\<close> and arrays of \<^verbatim>\<open>int\<close> live in two separate
  stores.  The carrier \<open>'a\<close> of the doubles is left open: the program only needs zero,
  addition and multiplication on it.  C \<^verbatim>\<open>int\<close> is embedded as \<open>int\<close>; no
  dimension or index is assumed to exceed the range of a machine integer.

  Every way the C code can leave its normal path is a value of \<open>error\<close>:
  an access outside an array, the read of a local that was never assigned, an allocation
  of negative size, an element taken from something that is not a list, and the two calls
  of \<^verbatim>\<open>error()\<close> in \<^verbatim>\<open>svdfirst\<close> (with the status they print).
\<close>

datatype error =
    Out_of_bounds
  | Uninitialised
  | Alloc_failed
  | Not_a_list
  | Lapack_dgesdd int
  | Lapack_dgesdd_pos2 int

text \<open>A pointer into the store of doubles: the address of an array and an offset into it
  (\<^verbatim>\<open>rY + i*nr\<close>).\<close>

type_synonym ptr = "nat \<times> int"

text \<open>
  The calls of the two Fortran routines are effects of the program that its results do
  not show (which mode was requested, on which buffers).  Every call is therefore
  recorded, with the arguments that tell the calls apart: for \<^verbatim>\<open>dqrsl\<close> the
  factorization \<open>x\<close>, its rank \<open>k\<close>, the column \<open>y\<close>, the targets \<open>rsd\<close> and \<open>xb\<close>
  (\<open>None\<close> stands for \<^verbatim>\<open>&dummy\<close>) and the mode \<open>job\<close>; for \<^verbatim>\<open>dgesdd\<close> the matrix
  \<open>a\<close> and \<open>lwork\<close>.
\<close>

datatype call =
    Dqrsl_call nat int ptr "ptr option" "ptr option" int
  | Dgesdd_call nat int

record 'a mem =
  doubles :: "'a list list"
  integers :: "int list list"
  calls :: "call list"

type_synonym ('a, 'r) prog = "'a mem \<Rightarrow> (error + 'r) \<times> 'a mem"

definition ret :: "'r \<Rightarrow> ('a, 'r) prog" where
  "ret r h = (Inr r, h)"

definition fail :: "error \<Rightarrow> ('a, 'r) prog" where
  "fail e h = (Inl e, h)"

definition mbind :: "('a, 'r) prog \<Rightarrow> ('r \<Rightarrow> ('a, 's) prog) \<Rightarrow> ('a, 's) prog" where
  "mbind m f h = (case m h of (Inl e, h') \<Rightarrow> (Inl e, h') | (Inr r, h') \<Rightarrow> f r h')"

text \<open>\<^verbatim>\<open>x[i]\<close> as a read and as an assignment.\<close>

definition rd_dbl :: "nat \<Rightarrow> int \<Rightarrow> ('a, 'a) prog" where
  "rd_dbl a i h =
     (if a < length (doubles h) \<and> 0 \<le> i \<and> nat i < length (doubles h ! a)
      then (Inr (doubles h ! a ! nat i), h)
      else (Inl Out_of_bounds, h))"

definition wr_dbl :: "nat \<Rightarrow> int \<Rightarrow> 'a \<Rightarrow> ('a, unit) prog" where
  "wr_dbl a i v h =
     (if a < length (doubles h) \<and> 0 \<le> i \<and> nat i < length (doubles h ! a)
      then (Inr (), h\<lparr>doubles := (doubles h)[a := (doubles h ! a)[nat i := v]]\<rparr>)
      else (Inl Out_of_bounds, h))"

text \<open>
  \<^verbatim>\<open>for (i = lo; i < hi; i++) body\<close>, where the body changes neither \<open>i\<close> nor the
  bound: \<open>for_loop n i body acc\<close> runs \<open>n\<close> rounds from index \<open>i\<close>; \<open>acc\<close> is the
  local the loop updates (\<^verbatim>\<open>sumev\<close>), or \<open>()\<close>.
\<close>

primrec for_loop :: "nat \<Rightarrow> int \<Rightarrow> (int \<Rightarrow> 's \<Rightarrow> ('a, 's) prog) \<Rightarrow> 's \<Rightarrow> ('a, 's) prog" where
  "for_loop 0 i body acc = ret acc"
| "for_loop (Suc n) i body acc = mbind (body i acc) (for_loop n (i + 1) body)"

definition for_range :: "int \<Rightarrow> int \<Rightarrow> (int \<Rightarrow> 's \<Rightarrow> ('a, 's) prog) \<Rightarrow> 's \<Rightarrow> ('a, 's) prog" where
  "for_range lo hi body acc = for_loop (nat (hi - lo)) lo body acc"

section \<open>\<^verbatim>\<open>getEV\<close>: the sum of all eigenvalues\<close>

text \<open>
  \<^verbatim>\<open>static double getEV(double *x, int nr, int nc, int isDB)\<close>.  The \<^verbatim>\<open>switch\<close> has the
  cases 1 and 0 and no default; \<^verbatim>\<open>sumev\<close> is assigned only in the loop headers of the
  two cases, so with any other \<open>isDB\<close> the \<^verbatim>\<open>return\<close> reads a local that was never
  assigned.
\<close>

definition getEV :: "nat \<Rightarrow> int \<Rightarrow> int \<Rightarrow> int \<Rightarrow> ('a::{zero,plus,times}, 'a) prog" where
  "getEV x nr nc isDB =
     (if isDB = 1 then
        for_range 0 nr (\<lambda>i sumev. mbind (rd_dbl x (i * nr + i)) (\<lambda>v. ret (sumev + v * v))) 0
      else if isDB = 0 then
        for_range 0 (nr * nc) (\<lambda>i sumev. mbind (rd_dbl x i) (\<lambda>v. ret (sumev + v * v))) 0
      else fail Uninitialised)"

section \<open>What the program takes from outside\<close>

text \<open>
  The two Fortran routines, the conversion of a \<^verbatim>\<open>double\<close> to \<^verbatim>\<open>int\<close> and the
  contents of memory that was allocated and not yet written are not part of the file.
  They are parameters of the model, collected in a record, and every theorem holds for
  all of them.

  A routine is a function from what it is given to what it leaves behind.
  \<^verbatim>\<open>dqrsl\<close> is given the factorization (\<open>x\<close>, \<open>ldx\<close>, \<open>n\<close>, \<open>k\<close>, \<open>qraux\<close>), the
  \<open>n\<close> entries of the column \<open>y\<close>, the mode \<open>job\<close> and, for each array it was asked to
  fill, the \<open>n\<close> entries found there on entry; it leaves \<open>n\<close> entries for each such
  array and a status.  \<^verbatim>\<open>dgesdd\<close> is given the matrix and the scalar arguments; it
  leaves the (destroyed) matrix, the singular values, its work arrays and a status.
\<close>

record 'a dqrsl_args =
  dq_x :: "'a list"
  dq_ldx :: int
  dq_n :: int
  dq_k :: int
  dq_qraux :: "'a list"
  dq_y :: "'a list"
  dq_qty :: "'a list"
  dq_rsd :: "'a list"
  dq_xb :: "'a list"
  dq_job :: int

record 'a dqrsl_res =
  qty_out :: "nat \<Rightarrow> 'a"
  rsd_out :: "nat \<Rightarrow> 'a"
  xb_out :: "nat \<Rightarrow> 'a"
  dq_info :: int

record 'a dgesdd_args =
  dg_jobz :: string
  dg_m :: int
  dg_n :: int
  dg_a :: "'a list"
  dg_lda :: int
  dg_ldu :: int
  dg_ldvt :: int
  dg_lwork :: int

record 'a dgesdd_res =
  a_out :: "nat \<Rightarrow> 'a"
  s_out :: "nat \<Rightarrow> 'a"
  work_out :: "nat \<Rightarrow> 'a"
  iwork_out :: "nat \<Rightarrow> int"
  dg_info :: int

record 'a extern =
  dqrsl :: "'a dqrsl_args \<Rightarrow> 'a dqrsl_res"
  dgesdd :: "'a dgesdd_args \<Rightarrow> 'a dgesdd_res"
  double_to_int :: "'a \<Rightarrow> int"
  fresh_double :: "nat \<Rightarrow> nat \<Rightarrow> 'a"
  fresh_int :: "nat \<Rightarrow> nat \<Rightarrow> int"

section \<open>Memory operations\<close>

definition rd_int :: "nat \<Rightarrow> int \<Rightarrow> ('a, int) prog" where
  "rd_int a i h =
     (if a < length (integers h) \<and> 0 \<le> i \<and> nat i < length (integers h ! a)
      then (Inr (integers h ! a ! nat i), h)
      else (Inl Out_of_bounds, h))"

definition wr_int :: "nat \<Rightarrow> int \<Rightarrow> int \<Rightarrow> ('a, unit) prog" where
  "wr_int a i v h =
     (if a < length (integers h) \<and> 0 \<le> i \<and> nat i < length (integers h ! a)
      then (Inr (), h\<lparr>integers := (integers h)[a := (integers h ! a)[nat i := v]]\<rparr>)
      else (Inl Out_of_bounds, h))"

text \<open>A whole array, and \<open>n\<close> consecutive entries from a pointer on.\<close>

definition rd_array :: "nat \<Rightarrow> ('a, 'a list) prog" where
  "rd_array a h =
     (if a < length (doubles h) then (Inr (doubles h ! a), h) else (Inl Out_of_bounds, h))"

definition rd_block :: "ptr \<Rightarrow> int \<Rightarrow> ('a, 'a list) prog" where
  "rd_block p n h =
     (if fst p < length (doubles h) \<and> 0 \<le> snd p
         \<and> nat (snd p) + nat n \<le> length (doubles h ! fst p)
      then (Inr (take (nat n) (drop (nat (snd p)) (doubles h ! fst p))), h)
      else (Inl Out_of_bounds, h))"

definition wr_block :: "ptr \<Rightarrow> int \<Rightarrow> (nat \<Rightarrow> 'a) \<Rightarrow> ('a, unit) prog" where
  "wr_block p n f h =
     (if fst p < length (doubles h) \<and> 0 \<le> snd p
         \<and> nat (snd p) + nat n \<le> length (doubles h ! fst p)
      then (Inr (), h\<lparr>doubles := (doubles h)[fst p :=
              take (nat (snd p)) (doubles h ! fst p) @ map f [0..<nat n]
              @ drop (nat (snd p) + nat n) (doubles h ! fst p)]\<rparr>)
      else (Inl Out_of_bounds, h))"

definition wr_block_int :: "nat \<Rightarrow> int \<Rightarrow> (nat \<Rightarrow> int) \<Rightarrow> ('a, unit) prog" where
  "wr_block_int a n f h =
     (if a < length (integers h) \<and> nat n \<le> length (integers h ! a)
      then (Inr (), h\<lparr>integers := (integers h)[a :=
              map f [0..<nat n] @ drop (nat n) (integers h ! a)]\<rparr>)
      else (Inl Out_of_bounds, h))"

text \<open>
  \<^verbatim>\<open>R_alloc(n, sizeof(double))\<close> and \<^verbatim>\<open>R_alloc(n, sizeof(int))\<close>: a new array of
  \<open>n\<close> entries whose contents nobody has chosen.  A negative \<open>n\<close> is refused by R.
\<close>

definition R_alloc_double :: "'a extern \<Rightarrow> int \<Rightarrow> ('a, nat) prog" where
  "R_alloc_double ext n h =
     (if n < 0 then (Inl Alloc_failed, h)
      else (Inr (length (doubles h)),
            h\<lparr>doubles := doubles h @ [map (fresh_double ext (length (doubles h))) [0..<nat n]]\<rparr>))"

definition R_alloc_int :: "'a extern \<Rightarrow> int \<Rightarrow> ('a, nat) prog" where
  "R_alloc_int ext n h =
     (if n < 0 then (Inl Alloc_failed, h)
      else (Inr (length (integers h)),
            h\<lparr>integers := integers h @ [map (fresh_int ext (length (integers h))) [0..<nat n]]\<rparr>))"

text \<open>
  An R matrix (\<^verbatim>\<open>SEXP\<close> with dimensions): where its data are (\<^verbatim>\<open>REAL(E)\<close>,
  \<^verbatim>\<open>INTEGER(perms)\<close>) and what \<^verbatim>\<open>nrows\<close> and \<^verbatim>\<open>ncols\<close> return.  The list that
  R's \<^verbatim>\<open>qr\<close> returns: its elements 0 and 2 are arrays of doubles, its element 1 is
  the rank as \<^verbatim>\<open>asInteger\<close> reads it.
\<close>

record matrix =
  addr :: nat
  nrows :: int
  ncols :: int

record qr_list =
  elt0 :: nat
  elt1 :: int
  elt2 :: nat

definition allocMatrix_REALSXP :: "'a extern \<Rightarrow> int \<Rightarrow> int \<Rightarrow> ('a, matrix) prog" where
  "allocMatrix_REALSXP ext nrow ncol =
     (if nrow < 0 \<or> ncol < 0 then fail Alloc_failed
      else mbind (R_alloc_double ext (nrow * ncol))
             (\<lambda>a. ret \<lparr>addr = a, nrows = nrow, ncols = ncol\<rparr>))"

definition duplicate_REALSXP :: "matrix \<Rightarrow> ('a, matrix) prog" where
  "duplicate_REALSXP m h =
     (if addr m < length (doubles h)
      then (Inr (m\<lparr>addr := length (doubles h)\<rparr>), h\<lparr>doubles := doubles h @ [doubles h ! addr m]\<rparr>)
      else (Inl Out_of_bounds, h))"

definition duplicate_INTSXP :: "matrix \<Rightarrow> ('a, matrix) prog" where
  "duplicate_INTSXP m h =
     (if addr m < length (integers h)
      then (Inr (m\<lparr>addr := length (integers h)\<rparr>), h\<lparr>integers := integers h @ [integers h ! addr m]\<rparr>)
      else (Inl Out_of_bounds, h))"

definition log_call :: "call \<Rightarrow> ('a, unit) prog" where
  "log_call c h = (Inr (), h\<lparr>calls := calls h @ [c]\<rparr>)"

section \<open>The calls of LINPACK and LAPACK\<close>

text \<open>
  \<^verbatim>\<open>#define FIT 1\<close>, \<^verbatim>\<open>RESID 10\<close>, \<^verbatim>\<open>COEF 100\<close>, \<^verbatim>\<open>QTY 1000\<close>, \<^verbatim>\<open>QY 10000\<close>:
  the decimal code by which \<^verbatim>\<open>dqrsl\<close> is told what to compute.
\<close>

definition FIT :: int where "FIT = 1"
definition RESID :: int where "RESID = 10"
definition COEF :: int where "COEF = 100"
definition QTY :: int where "QTY = 1000"
definition QY :: int where "QY = 10000"

text \<open>An array the routine reads and fills only when the mode asks for it.
  \<open>None\<close> is the address of the scalar \<^verbatim>\<open>dummy\<close>, which has no room for a column.\<close>

definition rd_target :: "bool \<Rightarrow> ptr option \<Rightarrow> int \<Rightarrow> ('a, 'a list) prog" where
  "rd_target wanted p n =
     (if \<not> wanted then ret []
      else case p of None \<Rightarrow> fail Out_of_bounds | Some q \<Rightarrow> rd_block q n)"

definition wr_target :: "bool \<Rightarrow> ptr option \<Rightarrow> int \<Rightarrow> (nat \<Rightarrow> 'a) \<Rightarrow> ('a, unit) prog" where
  "wr_target wanted p n f =
     (if \<not> wanted then ret ()
      else case p of None \<Rightarrow> fail Out_of_bounds | Some q \<Rightarrow> wr_block q n f)"

text \<open>
  \<^verbatim>\<open>F77_CALL(dqrsl)(x, &ldx, &n, &k, qraux, y, qy, qty, b, rsd, xb, &job, &info)\<close>.
  LINPACK decodes \<open>job\<close> digit by digit: \<open>qy\<close> from the ten-thousands, \<open>qty\<close> when any
  of the four lower digits is set, \<open>b\<close> from the hundreds, \<open>rsd\<close> from the tens and
  \<open>xb\<close> from the units.  Both calls in the file pass \<^verbatim>\<open>&dummy\<close> for \<open>qy\<close> and \<open>b\<close>,
  so these two are not arguments here and a mode that asks for them runs out of bounds.
  The call returns the status that the routine stores in \<^verbatim>\<open>info\<close>.
\<close>

definition F77_dqrsl ::
  "'a extern \<Rightarrow> nat \<Rightarrow> int \<Rightarrow> int \<Rightarrow> int \<Rightarrow> nat \<Rightarrow> ptr \<Rightarrow> nat \<Rightarrow> ptr option \<Rightarrow> ptr option \<Rightarrow> int
     \<Rightarrow> ('a, int) prog" where
  "F77_dqrsl ext x ldx n k qraux y qty rsd xb job =
     (if job div 10000 \<noteq> 0 \<or> job mod 1000 div 100 \<noteq> 0 then fail Out_of_bounds
      else
        mbind (rd_array x) (\<lambda>xs.
        mbind (rd_array qraux) (\<lambda>aux.
        mbind (rd_block y n) (\<lambda>ys.
        mbind (rd_target (job mod 10000 \<noteq> 0) (Some (qty, 0)) n) (\<lambda>qtys.
        mbind (rd_target (job mod 100 div 10 \<noteq> 0) rsd n) (\<lambda>rsds.
        mbind (rd_target (job mod 10 \<noteq> 0) xb n) (\<lambda>xbs.
        mbind (log_call (Dqrsl_call x k y rsd xb job)) (\<lambda>_.
        mbind (wr_target (job mod 10000 \<noteq> 0) (Some (qty, 0)) n
                 (qty_out (dqrsl ext \<lparr>dq_x = xs, dq_ldx = ldx, dq_n = n, dq_k = k, dq_qraux = aux,
                    dq_y = ys, dq_qty = qtys, dq_rsd = rsds, dq_xb = xbs, dq_job = job\<rparr>))) (\<lambda>_.
        mbind (wr_target (job mod 100 div 10 \<noteq> 0) rsd n
                 (rsd_out (dqrsl ext \<lparr>dq_x = xs, dq_ldx = ldx, dq_n = n, dq_k = k, dq_qraux = aux,
                    dq_y = ys, dq_qty = qtys, dq_rsd = rsds, dq_xb = xbs, dq_job = job\<rparr>))) (\<lambda>_.
        mbind (wr_target (job mod 10 \<noteq> 0) xb n
                 (xb_out (dqrsl ext \<lparr>dq_x = xs, dq_ldx = ldx, dq_n = n, dq_k = k, dq_qraux = aux,
                    dq_y = ys, dq_qty = qtys, dq_rsd = rsds, dq_xb = xbs, dq_job = job\<rparr>))) (\<lambda>_.
        ret (dq_info (dqrsl ext \<lparr>dq_x = xs, dq_ldx = ldx, dq_n = n, dq_k = k, dq_qraux = aux,
                    dq_y = ys, dq_qty = qtys, dq_rsd = rsds, dq_xb = xbs, dq_job = job\<rparr>)))))))))))))"

text \<open>
  \<^verbatim>\<open>F77_CALL(dgesdd)(jobz, &m, &n, a, &lda, s, u, &ldu, vt, &ldvt, work, &lwork, iwork, &info)\<close>
  with \<^verbatim>\<open>&dummy\<close> for \<open>u\<close> and \<open>vt\<close>.  \<open>work\<close> is either an array of \<open>lwork\<close> doubles
  or (\<open>None\<close>) the address of the scalar \<^verbatim>\<open>query\<close>.  The call returns what the
  routine stores in \<open>work[0]\<close> and in \<^verbatim>\<open>info\<close>.
\<close>

definition F77_dgesdd ::
  "'a extern \<Rightarrow> string \<Rightarrow> int \<Rightarrow> int \<Rightarrow> nat \<Rightarrow> int \<Rightarrow> nat \<Rightarrow> int \<Rightarrow> int \<Rightarrow> nat option \<Rightarrow> int \<Rightarrow> nat
     \<Rightarrow> ('a, 'a \<times> int) prog" where
  "F77_dgesdd ext jobz m n a lda s ldu ldvt work lwork iwork =
     mbind (rd_block (a, 0) (lda * n)) (\<lambda>as.
     mbind (log_call (Dgesdd_call a lwork)) (\<lambda>_.
     mbind (wr_block (a, 0) (lda * n)
              (a_out (dgesdd ext \<lparr>dg_jobz = jobz, dg_m = m, dg_n = n, dg_a = as, dg_lda = lda,
                 dg_ldu = ldu, dg_ldvt = ldvt, dg_lwork = lwork\<rparr>))) (\<lambda>_.
     mbind (wr_block (s, 0) (if m < n then m else n)
              (s_out (dgesdd ext \<lparr>dg_jobz = jobz, dg_m = m, dg_n = n, dg_a = as, dg_lda = lda,
                 dg_ldu = ldu, dg_ldvt = ldvt, dg_lwork = lwork\<rparr>))) (\<lambda>_.
     mbind (wr_block_int iwork (8 * (if m < n then m else n))
              (iwork_out (dgesdd ext \<lparr>dg_jobz = jobz, dg_m = m, dg_n = n, dg_a = as, dg_lda = lda,
                 dg_ldu = ldu, dg_ldvt = ldvt, dg_lwork = lwork\<rparr>))) (\<lambda>_.
     mbind (case work of None \<Rightarrow> ret ()
            | Some w \<Rightarrow> wr_block (w, 0) lwork
                (work_out (dgesdd ext \<lparr>dg_jobz = jobz, dg_m = m, dg_n = n, dg_a = as, dg_lda = lda,
                   dg_ldu = ldu, dg_ldvt = ldvt, dg_lwork = lwork\<rparr>))) (\<lambda>_.
     ret (work_out (dgesdd ext \<lparr>dg_jobz = jobz, dg_m = m, dg_n = n, dg_a = as, dg_lda = lda,
                 dg_ldu = ldu, dg_ldvt = ldvt, dg_lwork = lwork\<rparr>) 0,
          dg_info (dgesdd ext \<lparr>dg_jobz = jobz, dg_m = m, dg_n = n, dg_a = as, dg_lda = lda,
                 dg_ldu = ldu, dg_ldvt = ldvt, dg_lwork = lwork\<rparr>))))))))"

section \<open>\<^verbatim>\<open>svdfirst\<close>: the first singular value\<close>

text \<open>
  \<^verbatim>\<open>static double svdfirst(double *x, int nr, int nc)\<close>: copy \<open>x\<close> into \<^verbatim>\<open>xwork\<close>,
  allocate \<^verbatim>\<open>sigma\<close> and \<^verbatim>\<open>iwork\<close>, ask \<^verbatim>\<open>dgesdd\<close> for the size of its work
  array (\<open>lwork = -1\<close>), stop with \<^verbatim>\<open>error()\<close> on a non-zero status, allocate
  \<^verbatim>\<open>work\<close>, call \<^verbatim>\<open>dgesdd\<close> again, stop with \<^verbatim>\<open>error()\<close> on a non-zero status,
  return \<^verbatim>\<open>sigma[0]\<close>.
\<close>

definition svdfirst :: "'a extern \<Rightarrow> nat \<Rightarrow> int \<Rightarrow> int \<Rightarrow> ('a, 'a) prog" where
  "svdfirst ext x nr nc =
     mbind (R_alloc_double ext (nr * nc)) (\<lambda>xwork.
     mbind (for_range 0 (nr * nc) (\<lambda>i _. mbind (rd_dbl x i) (\<lambda>v. wr_dbl xwork i v)) ()) (\<lambda>_.
     mbind (R_alloc_double ext (if nr < nc then nr else nc)) (\<lambda>sigma.
     mbind (R_alloc_int ext (8 * (if nr < nc then nr else nc))) (\<lambda>iwork.
     mbind (F77_dgesdd ext ''N'' nr nc xwork nr sigma nr nc None (- 1) iwork) (\<lambda>q.
     if snd q \<noteq> 0 then fail (Lapack_dgesdd (snd q))
     else
       mbind (R_alloc_double ext (double_to_int ext (fst q))) (\<lambda>work.
       mbind (F77_dgesdd ext ''N'' nr nc xwork nr sigma nr nc (Some work)
                (double_to_int ext (fst q)) iwork) (\<lambda>r.
       if snd r \<noteq> 0 then fail (Lapack_dgesdd_pos2 (snd r))
       else rd_dbl sigma 0)))))))"

section \<open>\<^verbatim>\<open>do_getF\<close>: the permutation loop\<close>

text \<open>
  The locals of \<^verbatim>\<open>do_getF\<close> that stay fixed while the loop runs.  \<^verbatim>\<open>Zqr\<close>,
  \<^verbatim>\<open>Zqrank\<close> and \<^verbatim>\<open>Zqraux\<close> are assigned only under \<^verbatim>\<open>if (PARTIAL)\<close>:
  \<open>loc_Z\<close> is \<open>None\<close> as long as they are not.
\<close>

record locals =
  loc_nperm :: int
  loc_nr :: int
  loc_nc :: int
  loc_FIRST :: int
  loc_PARTIAL :: int
  loc_ans :: matrix
  loc_rY :: nat
  loc_E :: nat
  loc_qr :: nat
  loc_qrank :: int
  loc_qraux :: nat
  loc_Z :: "qr_list option"
  loc_fitted :: nat
  loc_resid :: nat
  loc_qty :: nat
  loc_iperm :: nat

text \<open>
  Everything before the loop: the result matrix \<^verbatim>\<open>ans\<close> (\<open>nperm\<close> by 2, not
  initialised), the copy \<^verbatim>\<open>Y\<close> of \<open>E\<close>, the pointers into the two factorizations, the
  buffers \<^verbatim>\<open>fitted\<close>, \<^verbatim>\<open>resid\<close> and \<^verbatim>\<open>qty\<close>, the copy \<^verbatim>\<open>dperms\<close> of the
  permutation matrix, and the loop that turns its indices to zero base.
\<close>

definition getF_setup ::
  "'a extern \<Rightarrow> matrix \<Rightarrow> matrix \<Rightarrow> qr_list \<Rightarrow> qr_list option \<Rightarrow> int \<Rightarrow> int \<Rightarrow> ('a, locals) prog" where
  "getF_setup ext perms E QR QZ first isPartial =
     mbind (allocMatrix_REALSXP ext (nrows perms) 2) (\<lambda>ans.
     mbind (duplicate_REALSXP E) (\<lambda>Y.
     mbind (if isPartial \<noteq> 0
            then (case QZ of None \<Rightarrow> fail Not_a_list | Some z \<Rightarrow> ret (Some z))
            else ret None) (\<lambda>Z.
     mbind (R_alloc_double ext (nrows E * ncols E)) (\<lambda>fitted.
     mbind (R_alloc_double ext (nrows E * ncols E)) (\<lambda>resid.
     mbind (R_alloc_double ext (nrows E)) (\<lambda>qty.
     mbind (duplicate_INTSXP perms) (\<lambda>dperms.
     mbind (for_range 0 (nrows perms * nrows E)
              (\<lambda>i _. mbind (rd_int (addr dperms) i) (\<lambda>v. wr_int (addr dperms) i (v - 1))) ()) (\<lambda>_.
     ret \<lparr>loc_nperm = nrows perms, loc_nr = nrows E, loc_nc = ncols E,
          loc_FIRST = first, loc_PARTIAL = isPartial, loc_ans = ans, loc_rY = addr Y,
          loc_E = addr E, loc_qr = elt0 QR, loc_qrank = elt1 QR, loc_qraux = elt2 QR,
          loc_Z = Z, loc_fitted = fitted, loc_resid = resid, loc_qty = qty,
          loc_iperm = addr dperms\<rparr>))))))))"

text \<open>\<^verbatim>\<open>/* Y will be permuted data */\<close>\<close>

definition permute_row :: "locals \<Rightarrow> int \<Rightarrow> ('a, unit) prog" where
  "permute_row L k =
     for_range 0 (loc_nr L) (\<lambda>i _.
       mbind (rd_int (loc_iperm L) (k + loc_nperm L * i)) (\<lambda>ki.
       for_range 0 (loc_nc L) (\<lambda>j _.
         mbind (rd_dbl (loc_E L) (ki + loc_nr L * j)) (\<lambda>v.
         wr_dbl (loc_rY L) (i + loc_nr L * j) v)) ())) ()"

text \<open>\<^verbatim>\<open>/* Partial model: qr.resid(QZ, Y) with LINPACK */\<close>\<close>

definition partial_model :: "'a extern \<Rightarrow> locals \<Rightarrow> ('a, unit) prog" where
  "partial_model ext L =
     (if loc_PARTIAL L \<noteq> 0 then
        (case loc_Z L of
           None \<Rightarrow> fail Uninitialised
         | Some z \<Rightarrow>
             for_range 0 (loc_nc L) (\<lambda>i _.
               mbind (F77_dqrsl ext (elt0 z) (loc_nr L) (loc_nr L) (elt1 z) (elt2 z)
                        (loc_rY L, i * loc_nr L) (loc_qty L)
                        (Some (loc_rY L, i * loc_nr L)) None RESID) (\<lambda>info. ret ())) ())
      else ret ())"

text \<open>\<^verbatim>\<open>/* qr.fitted(QR, Y) + qr.resid(QR, Y) with LINPACK */\<close>\<close>

definition design_model :: "'a extern \<Rightarrow> locals \<Rightarrow> ('a, unit) prog" where
  "design_model ext L =
     for_range 0 (loc_nc L) (\<lambda>i _.
       mbind (F77_dqrsl ext (loc_qr L) (loc_nr L) (loc_nr L) (loc_qrank L) (loc_qraux L)
                (loc_rY L, i * loc_nr L) (loc_qty L)
                (Some (loc_resid L, i * loc_nr L)) (Some (loc_fitted L, i * loc_nr L))
                (if loc_PARTIAL L \<noteq> 0 \<or> loc_FIRST L \<noteq> 0 then FIT + RESID else FIT))
         (\<lambda>info. ret ())) ()"

text \<open>\<^verbatim>\<open>/* Eigenvalues: either sum of all or the first ... */\<close>\<close>

definition eigenvalues :: "('a::{zero,plus,times}) extern \<Rightarrow> locals \<Rightarrow> int \<Rightarrow> ('a, unit) prog" where
  "eigenvalues ext L k =
     mbind (if loc_FIRST L \<noteq> 0 then
              mbind (svdfirst ext (loc_fitted L) (loc_nr L) (loc_nc L)) (\<lambda>ev1.
              wr_dbl (addr (loc_ans L)) k (ev1 * ev1))
            else
              mbind (getEV (loc_fitted L) (loc_nr L) (loc_nc L) 0) (\<lambda>v.
              wr_dbl (addr (loc_ans L)) k v)) (\<lambda>_.
     if loc_PARTIAL L \<noteq> 0 \<or> loc_FIRST L \<noteq> 0 then
       mbind (getEV (loc_resid L) (loc_nr L) (loc_nc L) 0) (\<lambda>v.
       wr_dbl (addr (loc_ans L)) (k + loc_nperm L) v)
     else ret ())"

text \<open>The body of \<^verbatim>\<open>for (k = 0; k < nperm; k++)\<close>: the three steps that fill the
  buffers, then the two entries of the result.\<close>

definition project_row :: "'a extern \<Rightarrow> locals \<Rightarrow> int \<Rightarrow> ('a, unit) prog" where
  "project_row ext L k =
     mbind (permute_row L k) (\<lambda>_.
     mbind (partial_model ext L) (\<lambda>_.
     design_model ext L))"

definition getF_row :: "('a::{zero,plus,times}) extern \<Rightarrow> locals \<Rightarrow> int \<Rightarrow> ('a, unit) prog" where
  "getF_row ext L k = mbind (project_row ext L k) (\<lambda>_. eigenvalues ext L k)"

definition do_getF ::
  "('a::{zero,plus,times}) extern \<Rightarrow> matrix \<Rightarrow> matrix \<Rightarrow> qr_list \<Rightarrow> qr_list option \<Rightarrow> int \<Rightarrow> int
     \<Rightarrow> ('a, matrix) prog" where
  "do_getF ext perms E QR QZ first isPartial =
     mbind (getF_setup ext perms E QR QZ first isPartial) (\<lambda>L.
     mbind (for_range 0 (loc_nperm L) (\<lambda>k _. getF_row ext L k) ()) (\<lambda>_.
     ret (loc_ans L)))"

text \<open>
  The run of \<^verbatim>\<open>do_getF\<close> stopped in round \<open>k\<close> of the loop, after the calls of
  \<^verbatim>\<open>dqrsl\<close> and before the eigenvalues are taken: this is where the buffers
  \<^verbatim>\<open>fitted\<close> and \<^verbatim>\<open>resid\<close> hold what round \<open>k\<close> reads.
\<close>

definition getF_until ::
  "('a::{zero,plus,times}) extern \<Rightarrow> matrix \<Rightarrow> matrix \<Rightarrow> qr_list \<Rightarrow> qr_list option \<Rightarrow> int \<Rightarrow> int
     \<Rightarrow> int \<Rightarrow> ('a, locals) prog" where
  "getF_until ext perms E QR QZ first isPartial k =
     mbind (getF_setup ext perms E QR QZ first isPartial) (\<lambda>L.
     mbind (for_range 0 k (\<lambda>k' _. getF_row ext L k') ()) (\<lambda>_.
     mbind (project_row ext L k) (\<lambda>_.
     ret L)))"

definition fitted_at ::
  "('a::{zero,plus,times}) extern \<Rightarrow> matrix \<Rightarrow> matrix \<Rightarrow> qr_list \<Rightarrow> qr_list option \<Rightarrow> int \<Rightarrow> int
     \<Rightarrow> int \<Rightarrow> 'a mem \<Rightarrow> 'a list" where
  "fitted_at ext perms E QR QZ first isPartial k h =
     (case getF_until ext perms E QR QZ first isPartial k h of
        (Inr L, hk) \<Rightarrow> doubles hk ! loc_fitted L
      | (Inl e, hk) \<Rightarrow> [])"

definition resid_at ::
  "('a::{zero,plus,times}) extern \<Rightarrow> matrix \<Rightarrow> matrix \<Rightarrow> qr_list \<Rightarrow> qr_list option \<Rightarrow> int \<Rightarrow> int
     \<Rightarrow> int \<Rightarrow> 'a mem \<Rightarrow> 'a list" where
  "resid_at ext perms E QR QZ first isPartial k h =
     (case getF_until ext perms E QR QZ first isPartial k h of
        (Inr L, hk) \<Rightarrow> doubles hk ! loc_resid L
      | (Inl e, hk) \<Rightarrow> [])"

section \<open>A small run\<close>

text \<open>
  Sample inputs for the concrete runs further down.  The response \<open>E\<close> has two rows
  and one column, (3, 1); the permutation matrix has the two rows (1, 2) and (2, 1),
  stored by columns.  The design is the constant column, so that fitting a column gives
  its mean twice and the residuals are the deviations from the mean; \<open>sample_dqrsl\<close>
  does this for columns of length 2 and reports the status it is given.  \<open>sample_dgesdd\<close>
  returns the norm of its matrix as the first singular value, which is right for a
  matrix with one column, asks for a work array of one entry and reports the status it
  is given (one for the query with \<open>lwork = -1\<close>, one for the decomposition); the
  query leaves the matrix alone, the decomposition overwrites it with zeros.  Memory that was never written holds \<open>-1\<close>.
\<close>

definition sample_dqrsl :: "int \<Rightarrow> real dqrsl_args \<Rightarrow> real dqrsl_res" where
  "sample_dqrsl status a =
     \<lparr>qty_out = (\<lambda>i. dq_y a ! i),
      rsd_out = (\<lambda>i. dq_y a ! i - (dq_y a ! 0 + dq_y a ! 1) / 2),
      xb_out = (\<lambda>i. (dq_y a ! 0 + dq_y a ! 1) / 2),
      dq_info = status\<rparr>"

definition sample_dgesdd :: "int \<Rightarrow> int \<Rightarrow> real dgesdd_args \<Rightarrow> real dgesdd_res" where
  "sample_dgesdd status1 status2 a =
     \<lparr>a_out = (\<lambda>i. if dg_lwork a = - 1 then dg_a a ! i else 0),
      s_out = (\<lambda>i. if i = 0 then sqrt (\<Sum>v\<leftarrow>dg_a a. v * v) else 0),
      work_out = (\<lambda>i. 1),
      iwork_out = (\<lambda>i. 0),
      dg_info = (if dg_lwork a = - 1 then status1 else status2)\<rparr>"

definition sample_ext :: "int \<Rightarrow> int \<Rightarrow> int \<Rightarrow> real extern" where
  "sample_ext qr_status svd_status1 svd_status2 =
     \<lparr>dqrsl = sample_dqrsl qr_status,
      dgesdd = sample_dgesdd svd_status1 svd_status2,
      double_to_int = (\<lambda>x. if 0 \<le> x then \<lfloor>x\<rfloor> else \<lceil>x\<rceil>),
      fresh_double = (\<lambda>a i. - 1),
      fresh_int = (\<lambda>a i. - 1)\<rparr>"

definition sample_mem :: "real mem" where
  "sample_mem = \<lparr>doubles = [[3, 1], [1, 1], [1]], integers = [[1, 2, 2, 1]], calls = []\<rparr>"

definition sample_perms :: matrix where
  "sample_perms = \<lparr>addr = 0, nrows = 2, ncols = 2\<rparr>"

definition sample_E :: matrix where
  "sample_E = \<lparr>addr = 0, nrows = 2, ncols = 1\<rparr>"

definition sample_QR :: qr_list where
  "sample_QR = \<lparr>elt0 = 1, elt1 = 1, elt2 = 2\<rparr>"

section \<open>Reading the record of calls, and the two calls of \<^verbatim>\<open>dgesdd\<close>\<close>

text \<open>
  The calls of \<^verbatim>\<open>dqrsl\<close> on the design factorization are those that are given a
  place for the fitted values (the calls for the partial model pass \<^verbatim>\<open>&dummy\<close>):
  \<open>design_jobs\<close> lists their modes, in order.  \<open>dgesdd_arrays\<close> lists the arrays that
  were handed to \<^verbatim>\<open>dgesdd\<close>.
\<close>

fun design_jobs :: "call list \<Rightarrow> int list" where
  "design_jobs [] = []"
| "design_jobs (Dqrsl_call x k y rsd (Some xb) job # cs) = job # design_jobs cs"
| "design_jobs (c # cs) = design_jobs cs"

fun dgesdd_arrays :: "call list \<Rightarrow> nat list" where
  "dgesdd_arrays [] = []"
| "dgesdd_arrays (Dgesdd_call a lwork # cs) = a # dgesdd_arrays cs"
| "dgesdd_arrays (c # cs) = dgesdd_arrays cs"

text \<open>
  What \<^verbatim>\<open>dgesdd\<close> answers to the two calls \<^verbatim>\<open>svdfirst\<close> makes for a matrix with
  the entries \<open>xs\<close>: the query for the size of the work array, and the decomposition,
  which is given what the query left of the matrix and the size it asked for.
\<close>

definition dgesdd_query :: "'a extern \<Rightarrow> 'a list \<Rightarrow> int \<Rightarrow> int \<Rightarrow> 'a dgesdd_res" where
  "dgesdd_query ext xs nr nc =
     dgesdd ext \<lparr>dg_jobz = ''N'', dg_m = nr, dg_n = nc, dg_a = xs, dg_lda = nr,
                 dg_ldu = nr, dg_ldvt = nc, dg_lwork = - 1\<rparr>"

definition dgesdd_decomp :: "'a extern \<Rightarrow> 'a list \<Rightarrow> int \<Rightarrow> int \<Rightarrow> 'a dgesdd_res" where
  "dgesdd_decomp ext xs nr nc =
     dgesdd ext \<lparr>dg_jobz = ''N'', dg_m = nr, dg_n = nc,
                 dg_a = map (a_out (dgesdd_query ext xs nr nc)) [0..<nat (nr * nc)],
                 dg_lda = nr, dg_ldu = nr, dg_ldvt = nc,
                 dg_lwork = double_to_int ext (work_out (dgesdd_query ext xs nr nc) 0)\<rparr>"

text \<open>The same routines, except that \<^verbatim>\<open>dqrsl\<close> reports the status \<open>st\<close> chooses.\<close>

definition with_status :: "('a dqrsl_args \<Rightarrow> int) \<Rightarrow> 'a extern \<Rightarrow> 'a extern" where
  "with_status st ext = ext\<lparr>dqrsl := \<lambda>a. (dqrsl ext a)\<lparr>dq_info := st a\<rparr>\<rparr>"

section \<open>Reasoning about programs\<close>

text \<open>
  \<open>triple P f Q E\<close>: started in a memory that satisfies \<open>P\<close>, the program \<open>f\<close> either
  returns \<open>r\<close> in a memory that satisfies \<open>Q r\<close>, or stops with an error in a memory
  that satisfies \<open>E\<close>.  \<open>keeps I f R\<close>: \<open>f\<close> preserves \<open>I\<close> whether it returns or
  stops, and what it returns satisfies \<open>R\<close>.
\<close>

definition triple ::
  "('a mem \<Rightarrow> bool) \<Rightarrow> ('a, 'r) prog \<Rightarrow> ('r \<Rightarrow> 'a mem \<Rightarrow> bool) \<Rightarrow> ('a mem \<Rightarrow> bool) \<Rightarrow> bool" where
  "triple P f Q E \<longleftrightarrow>
     (\<forall>h. P h \<longrightarrow> (case f h of (Inr r, h') \<Rightarrow> Q r h' | (Inl e, h') \<Rightarrow> E h'))"

definition keeps :: "('a mem \<Rightarrow> bool) \<Rightarrow> ('a, 'r) prog \<Rightarrow> ('r \<Rightarrow> bool) \<Rightarrow> bool" where
  "keeps I f R \<longleftrightarrow> triple I f (\<lambda>r h. I h \<and> R r) I"

text \<open>
  \<open>stable I W WI WC C\<close>: the property \<open>I\<close> of memories survives every change a program
  can make, as long as the arrays of doubles it overwrites are in \<open>W\<close> (or it writes
  single cells in \<open>WC\<close>), the arrays of integers it overwrites are in \<open>WI\<close>, and the
  calls it records satisfy \<open>C\<close>.  Addresses not yet allocated count as writable, and an
  overwritten array keeps its length.
\<close>

definition stable ::
  "('a mem \<Rightarrow> bool) \<Rightarrow> nat set \<Rightarrow> nat set \<Rightarrow> (nat \<times> nat) set \<Rightarrow> (call \<Rightarrow> bool) \<Rightarrow> bool" where
  "stable I W WI WC C \<longleftrightarrow>
     (\<forall>h a. I h \<and> length (doubles h) \<le> a \<longrightarrow> a \<in> W) \<and>
     (\<forall>h a. I h \<and> length (integers h) \<le> a \<longrightarrow> a \<in> WI) \<and>
     (\<forall>h a xs. I h \<and> a \<in> W \<and> a < length (doubles h) \<and> length xs = length (doubles h ! a)
        \<longrightarrow> I (h\<lparr>doubles := (doubles h)[a := xs]\<rparr>)) \<and>
     (\<forall>h a i v. I h \<and> (a, i) \<in> WC \<and> a < length (doubles h) \<and> i < length (doubles h ! a)
        \<longrightarrow> I (h\<lparr>doubles := (doubles h)[a := (doubles h ! a)[i := v]]\<rparr>)) \<and>
     (\<forall>h xs. I h \<longrightarrow> I (h\<lparr>doubles := doubles h @ [xs]\<rparr>)) \<and>
     (\<forall>h a xs. I h \<and> a \<in> WI \<and> a < length (integers h) \<and> length xs = length (integers h ! a)
        \<longrightarrow> I (h\<lparr>integers := (integers h)[a := xs]\<rparr>)) \<and>
     (\<forall>h xs. I h \<longrightarrow> I (h\<lparr>integers := integers h @ [xs]\<rparr>)) \<and>
     (\<forall>h c. I h \<and> C c \<longrightarrow> I (h\<lparr>calls := calls h @ [c]\<rparr>))"

text \<open>
  \<open>design_count Cs J c\<close>: the calls recorded so far are \<open>Cs\<close> followed by calls among
  which exactly \<open>c\<close> are on the design factorization, each with the mode \<open>J\<close>.
\<close>

definition design_count :: "call list \<Rightarrow> int \<Rightarrow> nat \<Rightarrow> 'a mem \<Rightarrow> bool" where
  "design_count Cs J c h \<longleftrightarrow>
     take (length Cs) (calls h) = Cs \<and> design_jobs (drop (length Cs) (calls h)) = replicate c J"

section \<open>Rules for programs\<close>

lemma mbind_ret [simp]: "mbind (ret r) f h = f r h"
  by (simp add: mbind_def ret_def)

lemma mbind_fail [simp]: "mbind (fail e) f h = (Inl e, h)"
  by (simp add: mbind_def fail_def)

lemma mbind_Inr: "m h = (Inr r, h') \<Longrightarrow> f r h' = res \<Longrightarrow> mbind m f h = res"
  by (simp add: mbind_def)

lemma mbind_Inl: "m h = (Inl e, h') \<Longrightarrow> mbind m f h = (Inl e, h')"
  by (simp add: mbind_def)

lemma mbind_success:
  assumes "mbind f g h = (Inr r, h')"
  obtains x h1 where "f h = (Inr x, h1)" and "g x h1 = (Inr r, h')"
  using assms by (auto simp: mbind_def split: prod.splits sum.splits)

lemma tripleI:
  assumes "\<And>h. P h \<Longrightarrow> (case f h of (Inr r, h') \<Rightarrow> Q r h' | (Inl e, h') \<Rightarrow> E h')"
  shows "triple P f Q E"
  using assms by (simp add: triple_def)

lemma tripleD:
  assumes "triple P f Q E" and "P h"
  shows "case f h of (Inr r, h') \<Rightarrow> Q r h' | (Inl e, h') \<Rightarrow> E h'"
  using assms by (simp add: triple_def)

lemma tripleD_Inr:
  assumes "triple P f Q E" and "P h" and "f h = (Inr r, h')"
  shows "Q r h'"
  using tripleD [OF assms(1,2)] assms(3) by simp

lemma tripleD_Inl:
  assumes "triple P f Q E" and "P h" and "f h = (Inl e, h')"
  shows "E h'"
  using tripleD [OF assms(1,2)] assms(3) by simp

lemma triple_ret: "(\<And>h. P h \<Longrightarrow> Q r h) \<Longrightarrow> triple P (ret r) Q E"
  by (simp add: triple_def ret_def)

lemma triple_fail: "(\<And>h. P h \<Longrightarrow> E h) \<Longrightarrow> triple P (fail e) Q E"
  by (simp add: triple_def fail_def)

lemma triple_mbind:
  assumes "triple P f Q E" and "\<And>r. triple (Q r) (g r) R E"
  shows "triple P (mbind f g) R E"
proof (rule tripleI)
  fix h assume P: "P h"
  show "case mbind f g h of (Inr r, h') \<Rightarrow> R r h' | (Inl e, h') \<Rightarrow> E h'"
  proof (cases "f h")
    case (Pair res h1)
    show ?thesis
    proof (cases res)
      case (Inl e)
      with Pair have "f h = (Inl e, h1)" by simp
      from tripleD_Inl [OF assms(1) P this] Pair Inl show ?thesis
        by (simp add: mbind_def)
    next
      case (Inr x)
      with Pair have "f h = (Inr x, h1)" by simp
      from tripleD_Inr [OF assms(1) P this] have "Q x h1" .
      with assms(2) [of x] have "case g x h1 of (Inr r, h') \<Rightarrow> R r h' | (Inl e, h') \<Rightarrow> E h'"
        by (simp add: triple_def)
      with Pair Inr show ?thesis by (simp add: mbind_def)
    qed
  qed
qed

lemma triple_conseq:
  assumes "triple P' f Q' E'"
    and "\<And>h. P h \<Longrightarrow> P' h" and "\<And>r h. Q' r h \<Longrightarrow> Q r h" and "\<And>h. E' h \<Longrightarrow> E h"
  shows "triple P f Q E"
proof (rule tripleI)
  fix h assume "P h"
  then have "P' h" by (rule assms(2))
  with assms(1) have *: "case f h of (Inr r, h') \<Rightarrow> Q' r h' | (Inl e, h') \<Rightarrow> E' h'"
    by (simp add: triple_def)
  obtain res h' where fh: "f h = (res, h')" by (cases "f h")
  show "case f h of (Inr r, h') \<Rightarrow> Q r h' | (Inl e, h') \<Rightarrow> E h'"
    using * fh assms(3,4) by (cases res) simp_all
qed

lemma triple_gen_asm:
  assumes "F \<Longrightarrow> triple P f Q E"
  shows "triple (\<lambda>h. P h \<and> F) f Q E"
  using assms by (auto simp: triple_def)

lemma triple_for_loop:
  assumes "\<And>j acc. j < n \<Longrightarrow> triple (I j) (body (i + int j) acc) (\<lambda>_. I (Suc j)) E"
  shows "triple (I 0) (for_loop n i body acc) (\<lambda>_. I n) E"
  using assms
proof (induction n arbitrary: i acc I)
  case 0
  show ?case by (simp add: triple_ret)
next
  case (Suc n)
  have first: "triple (I 0) (body i acc) (\<lambda>_. I (Suc 0)) E"
    using Suc.prems [of 0 acc] by simp
  have rest: "triple (I (Suc 0)) (for_loop n (i + 1) body acc') (\<lambda>_. I (Suc n)) E" for acc'
  proof (rule Suc.IH [where I = "\<lambda>j. I (Suc j)"])
    fix j acc'' assume "j < n"
    then have "triple (I (Suc j)) (body (i + int (Suc j)) acc'') (\<lambda>_. I (Suc (Suc j))) E"
      by (intro Suc.prems) simp
    then show "triple (I (Suc j)) (body (i + 1 + int j) acc'') (\<lambda>_. I (Suc (Suc j))) E"
      by (simp add: add.assoc)
  qed
  show ?case
    unfolding for_loop.simps by (rule triple_mbind [OF first rest])
qed

lemma for_loop_add:
  "for_loop (m + n) i body acc = mbind (for_loop m i body acc) (for_loop n (i + int m) body)"
proof (induction m arbitrary: i acc)
  case 0
  show ?case by (simp add: fun_eq_iff)
next
  case (Suc m)
  show ?case
    by (simp add: Suc.IH fun_eq_iff mbind_def add.assoc split: prod.splits sum.splits)
qed

subsection \<open>Preservation\<close>

lemma keepsI:
  assumes "\<And>h. I h \<Longrightarrow> (case f h of (Inr r, h') \<Rightarrow> I h' \<and> R r | (Inl e, h') \<Rightarrow> I h')"
  shows "keeps I f R"
  using assms by (simp add: keeps_def triple_def)

lemma keepsD: "keeps I f R \<Longrightarrow> I h \<Longrightarrow> I (snd (f h))"
proof -
  assume k: "keeps I f R" and I: "I h"
  obtain res h' where fh: "f h = (res, h')" by (cases "f h")
  from k I have "case f h of (Inr r, h') \<Rightarrow> I h' \<and> R r | (Inl e, h') \<Rightarrow> I h'"
    by (simp add: keeps_def triple_def)
  with fh show ?thesis by (cases res) simp_all
qed

lemma keepsD_result:
  assumes "keeps I f R" and "I h" and "f h = (Inr r, h')"
  shows "R r"
proof -
  from assms(1) have "triple I f (\<lambda>r h. I h \<and> R r) I" by (simp add: keeps_def)
  from tripleD_Inr [OF this assms(2,3)] show ?thesis by simp
qed

lemma keeps_ret: "R r \<Longrightarrow> keeps I (ret r) R"
  by (simp add: keeps_def triple_ret)

lemma keeps_fail: "keeps I (fail e) R"
  by (simp add: keeps_def triple_fail)

lemma keeps_mbind:
  assumes "keeps I f Q" and "\<And>r. Q r \<Longrightarrow> keeps I (g r) R"
  shows "keeps I (mbind f g) R"
  unfolding keeps_def
proof (rule triple_mbind)
  show "triple I f (\<lambda>r h. I h \<and> Q r) I" using assms(1) by (simp add: keeps_def)
  show "triple (\<lambda>h. I h \<and> Q r) (g r) (\<lambda>r h. I h \<and> R r) I" for r
    by (rule triple_gen_asm) (use assms(2) in \<open>simp add: keeps_def\<close>)
qed

lemma keeps_weaken: "keeps I f Q \<Longrightarrow> (\<And>r. Q r \<Longrightarrow> R r) \<Longrightarrow> keeps I f R"
  unfolding keeps_def by (erule triple_conseq) auto

lemma keeps_if:
  "(c \<Longrightarrow> keeps I f R) \<Longrightarrow> (\<not> c \<Longrightarrow> keeps I g R) \<Longrightarrow> keeps I (if c then f else g) R"
  by simp

lemma keeps_for_loop:
  assumes "\<And>j acc. j < n \<Longrightarrow> keeps I (body (i + int j) acc) (\<lambda>_. True)"
  shows "keeps I (for_loop n i body acc) (\<lambda>_. True)"
proof -
  have "triple I (for_loop n i body acc) (\<lambda>_. I) I"
    by (rule triple_for_loop [where I = "\<lambda>_. I"]) (use assms in \<open>simp add: keeps_def\<close>)
  then show ?thesis by (simp add: keeps_def)
qed

lemma keeps_for_range:
  assumes "\<And>i acc. lo \<le> i \<Longrightarrow> i < hi \<Longrightarrow> keeps I (body i acc) (\<lambda>_. True)"
  shows "keeps I (for_range lo hi body acc) (\<lambda>_. True)"
  unfolding for_range_def by (rule keeps_for_loop) (use assms in auto)

lemma keeps_same_memory:
  assumes "\<And>h. snd (f h) = h"
  shows "keeps I f (\<lambda>_. True)"
proof (rule keepsI)
  fix h :: "'a mem" assume "I h"
  with assms [of h] show "case f h of (Inr r, h') \<Rightarrow> I h' \<and> True | (Inl e, h') \<Rightarrow> I h'"
    by (cases "f h") (auto split: sum.splits)
qed

lemma keeps_rd_dbl: "keeps I (rd_dbl a i) (\<lambda>_. True)"
  by (rule keeps_same_memory) (simp add: rd_dbl_def)

lemma keeps_rd_int: "keeps I (rd_int a i) (\<lambda>_. True)"
  by (rule keeps_same_memory) (simp add: rd_int_def)

lemma keeps_rd_array: "keeps I (rd_array a) (\<lambda>_. True)"
  by (rule keeps_same_memory) (simp add: rd_array_def)

lemma keeps_rd_block: "keeps I (rd_block p n) (\<lambda>_. True)"
  by (rule keeps_same_memory) (simp add: rd_block_def)

lemma keeps_rd_target: "keeps I (rd_target w p n) (\<lambda>_. True)"
  by (rule keeps_same_memory)
    (simp add: rd_target_def rd_block_def ret_def fail_def split: option.splits)

lemma stable_fresh_double:
  assumes "stable I W WI WC C" and "I h" and "length (doubles h) \<le> a"
  shows "a \<in> W"
proof -
  from assms(1) have "\<forall>h a. I h \<and> length (doubles h) \<le> a \<longrightarrow> a \<in> W"
    unfolding stable_def by (elim conjE)
  with assms(2,3) show ?thesis by blast
qed

lemma stable_fresh_int:
  assumes "stable I W WI WC C" and "I h" and "length (integers h) \<le> a"
  shows "a \<in> WI"
proof -
  from assms(1) have "\<forall>h a. I h \<and> length (integers h) \<le> a \<longrightarrow> a \<in> WI"
    unfolding stable_def by (elim conjE)
  with assms(2,3) show ?thesis by blast
qed

lemma stable_array:
  assumes "stable I W WI WC C" and "I h" and "a \<in> W" and "a < length (doubles h)"
    and "length xs = length (doubles h ! a)"
  shows "I (h\<lparr>doubles := (doubles h)[a := xs]\<rparr>)"
proof -
  from assms(1) have "\<forall>h a xs. I h \<and> a \<in> W \<and> a < length (doubles h)
      \<and> length xs = length (doubles h ! a) \<longrightarrow> I (h\<lparr>doubles := (doubles h)[a := xs]\<rparr>)"
    unfolding stable_def by (elim conjE)
  with assms(2-) show ?thesis by blast
qed

lemma stable_cell:
  assumes "stable I W WI WC C" and "I h" and "(a, i) \<in> WC" and "a < length (doubles h)"
    and "i < length (doubles h ! a)"
  shows "I (h\<lparr>doubles := (doubles h)[a := (doubles h ! a)[i := v]]\<rparr>)"
proof -
  from assms(1) have "\<forall>h a i v. I h \<and> (a, i) \<in> WC \<and> a < length (doubles h)
      \<and> i < length (doubles h ! a)
      \<longrightarrow> I (h\<lparr>doubles := (doubles h)[a := (doubles h ! a)[i := v]]\<rparr>)"
    unfolding stable_def by (elim conjE)
  with assms(2-) show ?thesis by blast
qed

lemma stable_append_double:
  assumes "stable I W WI WC C" and "I h"
  shows "I (h\<lparr>doubles := doubles h @ [xs]\<rparr>)"
proof -
  from assms(1) have "\<forall>h xs. I h \<longrightarrow> I (h\<lparr>doubles := doubles h @ [xs]\<rparr>)"
    unfolding stable_def by (elim conjE)
  with assms(2) show ?thesis by blast
qed

lemma stable_int_array:
  assumes "stable I W WI WC C" and "I h" and "a \<in> WI" and "a < length (integers h)"
    and "length xs = length (integers h ! a)"
  shows "I (h\<lparr>integers := (integers h)[a := xs]\<rparr>)"
proof -
  from assms(1) have "\<forall>h a xs. I h \<and> a \<in> WI \<and> a < length (integers h)
      \<and> length xs = length (integers h ! a) \<longrightarrow> I (h\<lparr>integers := (integers h)[a := xs]\<rparr>)"
    unfolding stable_def by (elim conjE)
  with assms(2-) show ?thesis by blast
qed

lemma stable_append_int:
  assumes "stable I W WI WC C" and "I h"
  shows "I (h\<lparr>integers := integers h @ [xs]\<rparr>)"
proof -
  from assms(1) have "\<forall>h xs. I h \<longrightarrow> I (h\<lparr>integers := integers h @ [xs]\<rparr>)"
    unfolding stable_def by (elim conjE)
  with assms(2) show ?thesis by blast
qed

lemma stable_call:
  assumes "stable I W WI WC C" and "I h" and "C c"
  shows "I (h\<lparr>calls := calls h @ [c]\<rparr>)"
proof -
  from assms(1) have "\<forall>h c. I h \<and> C c \<longrightarrow> I (h\<lparr>calls := calls h @ [c]\<rparr>)"
    unfolding stable_def by (elim conjE)
  with assms(2,3) show ?thesis by blast
qed

lemma keeps_wr_dbl:
  assumes "stable I W WI WC C" and "a \<in> W \<or> (a, nat i) \<in> WC"
  shows "keeps I (wr_dbl a i v) (\<lambda>_. True)"
proof (rule keepsI)
  fix h :: "'a mem" assume I: "I h"
  show "case wr_dbl a i v h of (Inr r, h') \<Rightarrow> I h' \<and> True | (Inl e, h') \<Rightarrow> I h'"
  proof (cases "a < length (doubles h) \<and> 0 \<le> i \<and> nat i < length (doubles h ! a)")
    case True
    from assms(2) have "I (h\<lparr>doubles := (doubles h)[a := (doubles h ! a)[nat i := v]]\<rparr>)"
    proof
      assume "a \<in> W"
      then show ?thesis using True I by (intro stable_array [OF assms(1)]) simp_all
    next
      assume "(a, nat i) \<in> WC"
      then show ?thesis using True I by (intro stable_cell [OF assms(1)]) simp_all
    qed
    with True show ?thesis by (simp add: wr_dbl_def)
  next
    case False
    with I show ?thesis by (auto simp: wr_dbl_def)
  qed
qed

lemma keeps_wr_block:
  assumes "stable I W WI WC C" and "fst p \<in> W"
  shows "keeps I (wr_block p n f) (\<lambda>_. True)"
proof (rule keepsI)
  fix h :: "'a mem" assume I: "I h"
  show "case wr_block p n f h of (Inr r, h') \<Rightarrow> I h' \<and> True | (Inl e, h') \<Rightarrow> I h'"
  proof (cases "fst p < length (doubles h) \<and> 0 \<le> snd p
         \<and> nat (snd p) + nat n \<le> length (doubles h ! fst p)")
    case True
    then have "I (h\<lparr>doubles := (doubles h)[fst p :=
              take (nat (snd p)) (doubles h ! fst p) @ map f [0..<nat n]
              @ drop (nat (snd p) + nat n) (doubles h ! fst p)]\<rparr>)"
      using I assms(2) by (intro stable_array [OF assms(1)]) auto
    with True show ?thesis by (simp add: wr_block_def)
  next
    case False
    with I show ?thesis by (auto simp: wr_block_def)
  qed
qed

lemma keeps_wr_target:
  assumes "stable I W WI WC C" and "\<And>q. w \<Longrightarrow> p = Some q \<Longrightarrow> fst q \<in> W"
  shows "keeps I (wr_target w p n f) (\<lambda>_. True)"
proof (cases w)
  case False
  then show ?thesis by (simp add: wr_target_def keeps_ret)
next
  case True
  show ?thesis
  proof (cases p)
    case None
    with True show ?thesis by (simp add: wr_target_def keeps_fail)
  next
    case (Some q)
    with True assms(2) have "fst q \<in> W" by simp
    then have "keeps I (wr_block q n f) (\<lambda>_. True)" by (rule keeps_wr_block [OF assms(1)])
    with True Some show ?thesis by (simp add: wr_target_def)
  qed
qed

lemma keeps_wr_int:
  assumes "stable I W WI WC C" and "a \<in> WI"
  shows "keeps I (wr_int a i v) (\<lambda>_. True)"
proof (rule keepsI)
  fix h :: "'a mem" assume I: "I h"
  show "case wr_int a i v h of (Inr r, h') \<Rightarrow> I h' \<and> True | (Inl e, h') \<Rightarrow> I h'"
  proof (cases "a < length (integers h) \<and> 0 \<le> i \<and> nat i < length (integers h ! a)")
    case True
    then have "I (h\<lparr>integers := (integers h)[a := (integers h ! a)[nat i := v]]\<rparr>)"
      using I assms(2) by (intro stable_int_array [OF assms(1)]) simp_all
    with True show ?thesis by (simp add: wr_int_def)
  next
    case False
    with I show ?thesis by (auto simp: wr_int_def)
  qed
qed

lemma keeps_wr_block_int:
  assumes "stable I W WI WC C" and "a \<in> WI"
  shows "keeps I (wr_block_int a n f) (\<lambda>_. True)"
proof (rule keepsI)
  fix h :: "'a mem" assume I: "I h"
  show "case wr_block_int a n f h of (Inr r, h') \<Rightarrow> I h' \<and> True | (Inl e, h') \<Rightarrow> I h'"
  proof (cases "a < length (integers h) \<and> nat n \<le> length (integers h ! a)")
    case True
    then have "I (h\<lparr>integers := (integers h)[a :=
              map f [0..<nat n] @ drop (nat n) (integers h ! a)]\<rparr>)"
      using I assms(2) by (intro stable_int_array [OF assms(1)]) auto
    with True show ?thesis by (simp add: wr_block_int_def)
  next
    case False
    with I show ?thesis by (auto simp: wr_block_int_def)
  qed
qed

lemma keeps_R_alloc_double:
  assumes "stable I W WI WC C"
  shows "keeps I (R_alloc_double ext n) (\<lambda>a. a \<in> W)"
proof (rule keepsI)
  fix h :: "'a mem" assume I: "I h"
  then show "case R_alloc_double ext n h of (Inr r, h') \<Rightarrow> I h' \<and> r \<in> W | (Inl e, h') \<Rightarrow> I h'"
    using stable_append_double [OF assms I] stable_fresh_double [OF assms I]
    by (simp add: R_alloc_double_def)
qed

lemma keeps_R_alloc_int:
  assumes "stable I W WI WC C"
  shows "keeps I (R_alloc_int ext n) (\<lambda>a. a \<in> WI)"
proof (rule keepsI)
  fix h :: "'a mem" assume I: "I h"
  then show "case R_alloc_int ext n h of (Inr r, h') \<Rightarrow> I h' \<and> r \<in> WI | (Inl e, h') \<Rightarrow> I h'"
    using stable_append_int [OF assms I] stable_fresh_int [OF assms I]
    by (simp add: R_alloc_int_def)
qed

lemma keeps_allocMatrix_REALSXP:
  assumes "stable I W WI WC C"
  shows "keeps I (allocMatrix_REALSXP ext nrow ncol) (\<lambda>m. addr m \<in> W)"
  unfolding allocMatrix_REALSXP_def
  by (intro keeps_if keeps_fail keeps_mbind [OF keeps_R_alloc_double [OF assms]] keeps_ret) simp

lemma keeps_duplicate_REALSXP:
  assumes "stable I W WI WC C"
  shows "keeps I (duplicate_REALSXP m) (\<lambda>m'. addr m' \<in> W)"
proof (rule keepsI)
  fix h :: "'a mem" assume I: "I h"
  then show "case duplicate_REALSXP m h of (Inr r, h') \<Rightarrow> I h' \<and> addr r \<in> W | (Inl e, h') \<Rightarrow> I h'"
    using stable_append_double [OF assms I] stable_fresh_double [OF assms I]
    by (simp add: duplicate_REALSXP_def)
qed

lemma keeps_duplicate_INTSXP:
  assumes "stable I W WI WC C"
  shows "keeps I (duplicate_INTSXP m) (\<lambda>m'. addr m' \<in> WI)"
proof (rule keepsI)
  fix h :: "'a mem" assume I: "I h"
  then show "case duplicate_INTSXP m h of (Inr r, h') \<Rightarrow> I h' \<and> addr r \<in> WI | (Inl e, h') \<Rightarrow> I h'"
    using stable_append_int [OF assms I] stable_fresh_int [OF assms I]
    by (simp add: duplicate_INTSXP_def)
qed

lemma keeps_log_call:
  assumes "stable I W WI WC C" and "C c"
  shows "keeps I (log_call c) (\<lambda>_. True)"
proof (rule keepsI)
  fix h :: "'a mem" assume I: "I h"
  then show "case log_call c h of (Inr r, h') \<Rightarrow> I h' \<and> True | (Inl e, h') \<Rightarrow> I h'"
    using stable_call [OF assms(1) I assms(2)] by (simp add: log_call_def)
qed

subsection \<open>What the functions of the file preserve\<close>

lemma keeps_ret_True: "keeps I (ret r) (\<lambda>_. True)"
  by (rule keeps_ret) simp

lemma keeps_case_option:
  assumes "p = None \<Longrightarrow> keeps I f R" and "\<And>q. p = Some q \<Longrightarrow> keeps I (g q) R"
  shows "keeps I (case p of None \<Rightarrow> f | Some q \<Rightarrow> g q) R"
  using assms by (cases p) simp_all

lemma keeps_getEV: "keeps I (getEV x nr nc isDB) (\<lambda>_. True)"
  unfolding getEV_def
  by (intro keeps_if keeps_for_range keeps_mbind [where Q = "\<lambda>_. True"]
      keeps_rd_dbl keeps_ret_True keeps_fail)

lemma keeps_F77_dqrsl:
  assumes st: "stable I W WI WC C"
    and "qty \<in> W"
    and "\<And>q. rsd = Some q \<Longrightarrow> fst q \<in> W"
    and "\<And>q. xb = Some q \<Longrightarrow> fst q \<in> W"
    and "C (Dqrsl_call x k y rsd xb job)"
  shows "keeps I (F77_dqrsl ext x ldx n k qraux y qty rsd xb job) (\<lambda>_. True)"
  unfolding F77_dqrsl_def
  by (intro keeps_if keeps_fail keeps_mbind [where Q = "\<lambda>_. True"] keeps_rd_array
      keeps_rd_block keeps_rd_target keeps_log_call [OF st] keeps_wr_target [OF st]
      keeps_ret_True)
    (use assms in auto)

lemma keeps_F77_dgesdd:
  assumes st: "stable I W WI WC C"
    and "a \<in> W" and "s \<in> W" and "iwork \<in> WI"
    and "\<And>w. work = Some w \<Longrightarrow> w \<in> W"
    and "C (Dgesdd_call a lwork)"
  shows "keeps I (F77_dgesdd ext jobz m n a lda s ldu ldvt work lwork iwork) (\<lambda>_. True)"
  unfolding F77_dgesdd_def
  by (intro keeps_mbind [where Q = "\<lambda>_. True"] keeps_rd_block keeps_log_call [OF st]
      keeps_wr_block [OF st] keeps_wr_block_int [OF st] keeps_case_option keeps_ret_True)
    (use assms in auto)

lemma keeps_svdfirst:
  assumes st: "stable I W WI WC C" and "\<And>a lw. a \<in> W \<Longrightarrow> C (Dgesdd_call a lw)"
  shows "keeps I (svdfirst ext x nr nc) (\<lambda>_. True)"
  unfolding svdfirst_def
  by (intro keeps_mbind [OF keeps_R_alloc_double [OF st]]
      keeps_mbind [OF keeps_R_alloc_int [OF st]]
      keeps_mbind [where Q = "\<lambda>_. True"]
      keeps_for_range keeps_rd_dbl keeps_wr_dbl [OF st] keeps_F77_dgesdd [OF st]
      keeps_if keeps_fail)
    (use assms in auto)

lemma keeps_permute_row:
  assumes st: "stable I W WI WC C" and "loc_rY L \<in> W"
  shows "keeps I (permute_row L k) (\<lambda>_. True)"
  unfolding permute_row_def
  by (intro keeps_for_range keeps_mbind [where Q = "\<lambda>_. True"] keeps_rd_int keeps_rd_dbl
      keeps_wr_dbl [OF st])
    (use assms in auto)

lemma keeps_partial_model:
  assumes st: "stable I W WI WC C" and "loc_rY L \<in> W" and "loc_qty L \<in> W"
    and "\<And>x k y rsd. C (Dqrsl_call x k y rsd None RESID)"
  shows "keeps I (partial_model ext L) (\<lambda>_. True)"
  unfolding partial_model_def
  by (intro keeps_if keeps_case_option keeps_fail keeps_ret_True keeps_for_range
      keeps_mbind [where Q = "\<lambda>_. True"] keeps_F77_dqrsl [OF st])
    (use assms in auto)

lemma keeps_design_model:
  assumes st: "stable I W WI WC C"
    and "loc_qty L \<in> W" and "loc_resid L \<in> W" and "loc_fitted L \<in> W"
    and "\<And>x k y rsd xb. C (Dqrsl_call x k y (Some rsd) (Some xb)
           (if loc_PARTIAL L \<noteq> 0 \<or> loc_FIRST L \<noteq> 0 then FIT + RESID else FIT))"
  shows "keeps I (design_model ext L) (\<lambda>_. True)"
  unfolding design_model_def
  by (intro keeps_for_range keeps_ret_True
      keeps_mbind [where Q = "\<lambda>_. True"] keeps_F77_dqrsl [OF st])
    (use assms in auto)

lemma keeps_project_row:
  assumes st: "stable I W WI WC C"
    and "loc_rY L \<in> W" and "loc_qty L \<in> W" and "loc_resid L \<in> W" and "loc_fitted L \<in> W"
    and "\<And>x k y rsd. C (Dqrsl_call x k y rsd None RESID)"
    and "\<And>x k y rsd xb. C (Dqrsl_call x k y (Some rsd) (Some xb)
           (if loc_PARTIAL L \<noteq> 0 \<or> loc_FIRST L \<noteq> 0 then FIT + RESID else FIT))"
  shows "keeps I (project_row ext L k) (\<lambda>_. True)"
  unfolding project_row_def
  by (intro keeps_mbind [where Q = "\<lambda>_. True"] keeps_permute_row [OF st]
      keeps_partial_model [OF st] keeps_design_model [OF st])
    (use assms in auto)

lemma keeps_eigenvalues:
  assumes st: "stable I W WI WC C"
    and "\<And>a lw. a \<in> W \<Longrightarrow> C (Dgesdd_call a lw)"
    and "addr (loc_ans L) \<in> W \<or> (addr (loc_ans L), nat k) \<in> WC"
    and "loc_PARTIAL L \<noteq> 0 \<or> loc_FIRST L \<noteq> 0 \<Longrightarrow>
         addr (loc_ans L) \<in> W \<or> (addr (loc_ans L), nat (k + loc_nperm L)) \<in> WC"
  shows "keeps I (eigenvalues ext L k) (\<lambda>_. True)"
  unfolding eigenvalues_def
  by (intro keeps_if keeps_ret_True keeps_mbind [where Q = "\<lambda>_. True"]
      keeps_svdfirst [OF st] keeps_getEV keeps_wr_dbl [OF st])
    (use assms in auto)

lemma keeps_getF_row:
  assumes st: "stable I W WI WC C"
    and "loc_rY L \<in> W" and "loc_qty L \<in> W" and "loc_resid L \<in> W" and "loc_fitted L \<in> W"
    and "\<And>x k y rsd. C (Dqrsl_call x k y rsd None RESID)"
    and "\<And>x k y rsd xb. C (Dqrsl_call x k y (Some rsd) (Some xb)
           (if loc_PARTIAL L \<noteq> 0 \<or> loc_FIRST L \<noteq> 0 then FIT + RESID else FIT))"
    and "\<And>a lw. a \<in> W \<Longrightarrow> C (Dgesdd_call a lw)"
    and "addr (loc_ans L) \<in> W \<or> (addr (loc_ans L), nat k) \<in> WC"
    and "loc_PARTIAL L \<noteq> 0 \<or> loc_FIRST L \<noteq> 0 \<Longrightarrow>
         addr (loc_ans L) \<in> W \<or> (addr (loc_ans L), nat (k + loc_nperm L)) \<in> WC"
  shows "keeps I (getF_row ext L k) (\<lambda>_. True)"
  unfolding getF_row_def
  by (intro keeps_mbind [where Q = "\<lambda>_. True"] keeps_project_row [OF st]
      keeps_eigenvalues [OF st])
    (use assms in auto)

lemma keeps_getF_setup:
  assumes st: "stable I W WI WC C"
  shows "keeps I (getF_setup ext perms E QR QZ first isPartial)
           (\<lambda>L. addr (loc_ans L) \<in> W \<and> loc_rY L \<in> W \<and> loc_fitted L \<in> W
                \<and> loc_resid L \<in> W \<and> loc_qty L \<in> W \<and> loc_iperm L \<in> WI
                \<and> loc_FIRST L = first \<and> loc_PARTIAL L = isPartial
                \<and> loc_nperm L = nrows perms \<and> loc_nr L = nrows E \<and> loc_nc L = ncols E)"
  unfolding getF_setup_def
  by (intro keeps_mbind [OF keeps_allocMatrix_REALSXP [OF st]]
      keeps_mbind [OF keeps_duplicate_REALSXP [OF st]]
      keeps_mbind [OF keeps_R_alloc_double [OF st]]
      keeps_mbind [OF keeps_duplicate_INTSXP [OF st]]
      keeps_mbind [where Q = "\<lambda>_. True"]
      keeps_if keeps_case_option keeps_fail keeps_ret_True
      keeps_for_range keeps_rd_int keeps_wr_int [OF st] keeps_ret)
    (simp_all)

lemma keeps_do_getF:
  assumes st: "stable I W WI WC C"
    and "\<And>x k y rsd. C (Dqrsl_call x k y rsd None RESID)"
    and "\<And>x k y rsd xb. C (Dqrsl_call x k y (Some rsd) (Some xb)
           (if isPartial \<noteq> 0 \<or> first \<noteq> 0 then FIT + RESID else FIT))"
    and "\<And>a lw. a \<in> W \<Longrightarrow> C (Dgesdd_call a lw)"
  shows "keeps I (do_getF ext perms E QR QZ first isPartial) (\<lambda>_. True)"
  unfolding do_getF_def
  by (intro keeps_mbind [OF keeps_getF_setup [OF st]]
      keeps_mbind [where Q = "\<lambda>_. True"] keeps_for_range keeps_getF_row [OF st]
      keeps_ret_True)
    (use assms in auto)

lemma keeps_getF_until:
  assumes st: "stable I W WI WC C"
    and "\<And>x k y rsd. C (Dqrsl_call x k y rsd None RESID)"
    and "\<And>x k y rsd xb. C (Dqrsl_call x k y (Some rsd) (Some xb)
           (if isPartial \<noteq> 0 \<or> first \<noteq> 0 then FIT + RESID else FIT))"
    and "\<And>a lw. a \<in> W \<Longrightarrow> C (Dgesdd_call a lw)"
  shows "keeps I (getF_until ext perms E QR QZ first isPartial k) (\<lambda>_. True)"
  unfolding getF_until_def
  by (intro keeps_mbind [OF keeps_getF_setup [OF st]]
      keeps_mbind [where Q = "\<lambda>_. True"] keeps_for_range keeps_getF_row [OF st]
      keeps_project_row [OF st] keeps_ret_True)
    (use assms in auto)

section \<open>What a call leaves untouched\<close>

text \<open>
  The arrays that exist when a function is called stay as they are if the function
  writes only to arrays it allocates itself: the old store is a prefix of the new one.
\<close>

lemma take_eq_imp_le:
  assumes "take (length D) xs = D"
  shows "length D \<le> length xs"
proof -
  from assms have "length (take (length D) xs) = length D" by simp
  then show ?thesis by simp
qed

lemma stable_frame:
  "stable (\<lambda>h. take (length D) (doubles h) = D \<and> take (length N) (integers h) = N)
          {length D..} {length N..} {} (\<lambda>_. True)"
  unfolding stable_def
proof (intro conjI allI impI; (elim conjE)?)
  fix h :: "'a mem" and a
  assume "take (length D) (doubles h) = D" and "length (doubles h) \<le> a"
  then show "a \<in> {length D..}" using take_eq_imp_le [of D "doubles h"] by simp
next
  fix h :: "'a mem" and a
  assume "take (length N) (integers h) = N" and "length (integers h) \<le> a"
  then show "a \<in> {length N..}" using take_eq_imp_le [of N "integers h"] by simp
next
  fix h :: "'a mem" and xs
  assume "take (length D) (doubles h) = D"
  then show "take (length D) (doubles (h\<lparr>doubles := doubles h @ [xs]\<rparr>)) = D"
    using take_eq_imp_le [of D "doubles h"] by simp
next
  fix h :: "'a mem" and xs
  assume "take (length N) (integers h) = N"
  then show "take (length N) (integers (h\<lparr>integers := integers h @ [xs]\<rparr>)) = N"
    using take_eq_imp_le [of N "integers h"] by simp
qed simp_all

lemma frame_svdfirst:
  "take (length (doubles h)) (doubles (snd (svdfirst ext x nr nc h))) = doubles h
   \<and> take (length (integers h)) (integers (snd (svdfirst ext x nr nc h))) = integers h"
  by (rule keepsD [OF keeps_svdfirst [OF stable_frame]]) simp_all

lemma frame_do_getF:
  "take (length (doubles h)) (doubles (snd (do_getF ext perms E QR QZ first isPartial h))) = doubles h
   \<and> take (length (integers h)) (integers (snd (do_getF ext perms E QR QZ first isPartial h)))
       = integers h"
  by (rule keepsD [OF keeps_do_getF [OF stable_frame]]) simp_all

lemma frame_getF_until:
  "take (length (doubles h)) (doubles (snd (getF_until ext perms E QR QZ first isPartial k h)))
     = doubles h
   \<and> take (length (integers h)) (integers (snd (getF_until ext perms E QR QZ first isPartial k h)))
       = integers h"
  by (rule keepsD [OF keeps_getF_until [OF stable_frame]]) simp_all

text \<open>A property of the calls recorded since some point, for programs that write only
  to arrays allocated after that point.\<close>

lemma stable_calls:
  assumes "\<And>xs c. P xs \<Longrightarrow> C c \<Longrightarrow> P (xs @ [c])"
  shows "stable (\<lambda>h. n0 \<le> length (doubles h) \<and> take (length Cs) (calls h) = Cs
                    \<and> P (drop (length Cs) (calls h)))
          {n0..} UNIV UNIV C"
  unfolding stable_def
proof (intro conjI allI impI; (elim conjE)?)
  fix h :: "'a mem" and c
  assume a: "take (length Cs) (calls h) = Cs" "P (drop (length Cs) (calls h))" "C c"
  have le: "length Cs \<le> length (calls h)" using a(1) by (rule take_eq_imp_le)
  show "take (length Cs) (calls (h\<lparr>calls := calls h @ [c]\<rparr>)) = Cs"
    using a(1) le by simp
  show "P (drop (length Cs) (calls (h\<lparr>calls := calls h @ [c]\<rparr>)))"
    using assms [OF a(2,3)] le by simp
qed simp_all

lemma dgesdd_arrays_append: "dgesdd_arrays (xs @ ys) = dgesdd_arrays xs @ dgesdd_arrays ys"
  by (induction xs rule: dgesdd_arrays.induct) simp_all

lemma design_jobs_append: "design_jobs (xs @ ys) = design_jobs xs @ design_jobs ys"
  by (induction xs rule: design_jobs.induct) simp_all

lemma svdfirst_private_copy:
  "list_all ((\<le>) (length (doubles h)))
     (dgesdd_arrays (drop (length (calls h)) (calls (snd (svdfirst ext x nr nc h)))))"
proof -
  let ?I = "\<lambda>h'. length (doubles h) \<le> length (doubles h') \<and> take (length (calls h)) (calls h') = calls h
      \<and> list_all ((\<le>) (length (doubles h))) (dgesdd_arrays (drop (length (calls h)) (calls h')))"
  have st: "stable ?I {length (doubles h)..} UNIV UNIV
      (\<lambda>c. list_all ((\<le>) (length (doubles h))) (dgesdd_arrays [c]))"
    by (rule stable_calls) (simp add: dgesdd_arrays_append)
  have "?I (snd (svdfirst ext x nr nc h))"
    by (rule keepsD [OF keeps_svdfirst [OF st]]) simp_all
  then show ?thesis by simp
qed

section \<open>The two copying loops\<close>

text \<open>
  \<^verbatim>\<open>for (i = 0; i < len; i++) xwork[i] = x[i];\<close> and
  \<^verbatim>\<open>for (i = 0; i < nperm * nr; i++) iperm[i]--;\<close>, run for \<open>n\<close> rounds from index
  \<open>i\<close> on arrays that are long enough.
\<close>

lemma copy_loop:
  assumes "x < length (doubles h)" and "w < length (doubles h)" and "x \<noteq> w" and "0 \<le> i"
    and "nat i + n \<le> length (doubles h ! x)" and "nat i + n \<le> length (doubles h ! w)"
  shows "for_loop n i (\<lambda>i _. mbind (rd_dbl x i) (\<lambda>v. wr_dbl w i v)) () h =
         (Inr (), h\<lparr>doubles := (doubles h)[w :=
            map (\<lambda>j. if nat i \<le> j \<and> j < nat i + n then doubles h ! x ! j else doubles h ! w ! j)
              [0..<length (doubles h ! w)]]\<rparr>)"
  using assms
proof (induction n arbitrary: i h)
  case 0
  have "map (\<lambda>j. if nat i \<le> j \<and> j < nat i + 0 then doubles h ! x ! j else doubles h ! w ! j)
          [0..<length (doubles h ! w)] = doubles h ! w"
    by (rule nth_equalityI) auto
  then show ?case by (simp add: ret_def)
next
  case (Suc n)
  let ?X = "doubles h ! x" and ?W = "doubles h ! w"
  let ?h1 = "h\<lparr>doubles := (doubles h)[w := ?W[nat i := ?X ! nat i]]\<rparr>"
  have step: "mbind (rd_dbl x i) (\<lambda>v. wr_dbl w i v) h = (Inr (), ?h1)"
    using Suc.prems by (simp add: mbind_def rd_dbl_def wr_dbl_def)
  have nat1: "nat (i + 1) = Suc (nat i)" using Suc.prems(4) by simp
  have rest: "for_loop n (i + 1) (\<lambda>i _. mbind (rd_dbl x i) (\<lambda>v. wr_dbl w i v)) () ?h1 =
         (Inr (), ?h1\<lparr>doubles := (doubles ?h1)[w :=
            map (\<lambda>j. if nat (i + 1) \<le> j \<and> j < nat (i + 1) + n then doubles ?h1 ! x ! j
                      else doubles ?h1 ! w ! j)
              [0..<length (doubles ?h1 ! w)]]\<rparr>)"
    using Suc.prems by (intro Suc.IH) (simp_all add: nat1)
  have lists: "map (\<lambda>j. if nat (i + 1) \<le> j \<and> j < nat (i + 1) + n then doubles ?h1 ! x ! j
                      else doubles ?h1 ! w ! j) [0..<length (doubles ?h1 ! w)]
        = map (\<lambda>j. if nat i \<le> j \<and> j < nat i + Suc n then ?X ! j else ?W ! j) [0..<length ?W]"
    using Suc.prems by (auto simp: nat1 nth_list_update)
  have "for_loop (Suc n) i (\<lambda>i _. mbind (rd_dbl x i) (\<lambda>v. wr_dbl w i v)) () h =
        for_loop n (i + 1) (\<lambda>i _. mbind (rd_dbl x i) (\<lambda>v. wr_dbl w i v)) () ?h1"
    unfolding for_loop.simps by (rule mbind_Inr, rule step, rule refl)
  also have "\<dots> = (Inr (), ?h1\<lparr>doubles := (doubles ?h1)[w :=
        map (\<lambda>j. if nat i \<le> j \<and> j < nat i + Suc n then ?X ! j else ?W ! j) [0..<length ?W]]\<rparr>)"
    using rest unfolding lists .
  also have "?h1\<lparr>doubles := (doubles ?h1)[w :=
        map (\<lambda>j. if nat i \<le> j \<and> j < nat i + Suc n then ?X ! j else ?W ! j) [0..<length ?W]]\<rparr>
      = h\<lparr>doubles := (doubles h)[w :=
        map (\<lambda>j. if nat i \<le> j \<and> j < nat i + Suc n then ?X ! j else ?W ! j) [0..<length ?W]]\<rparr>"
    by simp
  finally show ?case .
qed

lemma decrement_loop:
  assumes "a < length (integers h)" and "0 \<le> i" and "nat i + n \<le> length (integers h ! a)"
  shows "for_loop n i (\<lambda>i _. mbind (rd_int a i) (\<lambda>v. wr_int a i (v - 1))) () h =
         (Inr (), h\<lparr>integers := (integers h)[a :=
            map (\<lambda>j. if nat i \<le> j \<and> j < nat i + n then integers h ! a ! j - 1
                      else integers h ! a ! j)
              [0..<length (integers h ! a)]]\<rparr>)"
  using assms
proof (induction n arbitrary: i h)
  case 0
  have "map (\<lambda>j. if nat i \<le> j \<and> j < nat i + 0 then integers h ! a ! j - 1
                    else integers h ! a ! j)
          [0..<length (integers h ! a)] = integers h ! a"
    by (rule nth_equalityI) auto
  then show ?case by (simp add: ret_def)
next
  case (Suc n)
  let ?A = "integers h ! a"
  let ?h1 = "h\<lparr>integers := (integers h)[a := ?A[nat i := ?A ! nat i - 1]]\<rparr>"
  have step: "mbind (rd_int a i) (\<lambda>v. wr_int a i (v - 1)) h = (Inr (), ?h1)"
    using Suc.prems by (simp add: mbind_def rd_int_def wr_int_def)
  have nat1: "nat (i + 1) = Suc (nat i)" using Suc.prems(2) by simp
  have rest: "for_loop n (i + 1) (\<lambda>i _. mbind (rd_int a i) (\<lambda>v. wr_int a i (v - 1))) () ?h1 =
         (Inr (), ?h1\<lparr>integers := (integers ?h1)[a :=
            map (\<lambda>j. if nat (i + 1) \<le> j \<and> j < nat (i + 1) + n then integers ?h1 ! a ! j - 1
                      else integers ?h1 ! a ! j)
              [0..<length (integers ?h1 ! a)]]\<rparr>)"
    using Suc.prems by (intro Suc.IH) (simp_all add: nat1)
  have lists: "map (\<lambda>j. if nat (i + 1) \<le> j \<and> j < nat (i + 1) + n then integers ?h1 ! a ! j - 1
                      else integers ?h1 ! a ! j) [0..<length (integers ?h1 ! a)]
        = map (\<lambda>j. if nat i \<le> j \<and> j < nat i + Suc n then ?A ! j - 1 else ?A ! j) [0..<length ?A]"
    using Suc.prems by (auto simp: nat1 nth_list_update)
  have "for_loop (Suc n) i (\<lambda>i _. mbind (rd_int a i) (\<lambda>v. wr_int a i (v - 1))) () h =
        for_loop n (i + 1) (\<lambda>i _. mbind (rd_int a i) (\<lambda>v. wr_int a i (v - 1))) () ?h1"
    unfolding for_loop.simps by (rule mbind_Inr, rule step, rule refl)
  also have "\<dots> = (Inr (), ?h1\<lparr>integers := (integers ?h1)[a :=
        map (\<lambda>j. if nat i \<le> j \<and> j < nat i + Suc n then ?A ! j - 1 else ?A ! j) [0..<length ?A]]\<rparr>)"
    using rest unfolding lists .
  also have "?h1\<lparr>integers := (integers ?h1)[a :=
        map (\<lambda>j. if nat i \<le> j \<and> j < nat i + Suc n then ?A ! j - 1 else ?A ! j) [0..<length ?A]]\<rparr>
      = h\<lparr>integers := (integers h)[a :=
        map (\<lambda>j. if nat i \<le> j \<and> j < nat i + Suc n then ?A ! j - 1 else ?A ! j) [0..<length ?A]]\<rparr>"
    by simp
  finally show ?case .
qed

text \<open>Whatever the length of the array, the decrementing loop touches nothing else.\<close>

lemma decrement_loop_frame:
  "for_loop n i (\<lambda>i _. mbind (rd_int a i) (\<lambda>v. wr_int a i (v - 1))) () h = (r, h') \<Longrightarrow>
   doubles h' = doubles h \<and> calls h' = calls h \<and> length (integers h') = length (integers h)
   \<and> (\<forall>b. b \<noteq> a \<longrightarrow> integers h' ! b = integers h ! b)"
proof (induction n arbitrary: i h)
  case 0
  then show ?case by (simp add: ret_def)
next
  case (Suc n)
  show ?case
  proof (cases "a < length (integers h) \<and> 0 \<le> i \<and> nat i < length (integers h ! a)")
    case True
    let ?h1 = "h\<lparr>integers := (integers h)[a := (integers h ! a)[nat i := integers h ! a ! nat i - 1]]\<rparr>"
    have step: "mbind (rd_int a i) (\<lambda>v. wr_int a i (v - 1)) h = (Inr (), ?h1)"
      using True by (simp add: mbind_def rd_int_def wr_int_def)
    have "for_loop (Suc n) i (\<lambda>i _. mbind (rd_int a i) (\<lambda>v. wr_int a i (v - 1))) () h =
          for_loop n (i + 1) (\<lambda>i _. mbind (rd_int a i) (\<lambda>v. wr_int a i (v - 1))) () ?h1"
      unfolding for_loop.simps by (rule mbind_Inr, rule step, rule refl)
    with Suc.prems have "for_loop n (i + 1) (\<lambda>i _. mbind (rd_int a i) (\<lambda>v. wr_int a i (v - 1))) () ?h1
        = (r, h')" by simp
    from Suc.IH [OF this] show ?thesis by simp
  next
    case False
    then have "mbind (rd_int a i) (\<lambda>v. wr_int a i (v - 1)) h = (Inl Out_of_bounds, h)"
      by (auto simp: mbind_def rd_int_def)
    then have "for_loop (Suc n) i (\<lambda>i _. mbind (rd_int a i) (\<lambda>v. wr_int a i (v - 1))) () h
        = (Inl Out_of_bounds, h)"
      unfolding for_loop.simps by (rule mbind_Inl)
    with Suc.prems show ?thesis by simp
  qed
qed

section \<open>Properties of \<^verbatim>\<open>getEV\<close>\<close>

lemma rd_dbl_ok:
  "a < length (doubles h) \<Longrightarrow> 0 \<le> i \<Longrightarrow> nat i < length (doubles h ! a) \<Longrightarrow>
   rd_dbl a i h = (Inr (doubles h ! a ! nat i), h)"
  by (simp add: rd_dbl_def)

text \<open>An accumulating loop that reads \<open>x[idx i]\<close> in every round and adds its square.\<close>

lemma square_loop:
  fixes h :: "('a::{comm_monoid_add,times}) mem"
  assumes "a < length (doubles h)"
    and "\<And>j. j < n \<Longrightarrow> 0 \<le> idx (i + int j) \<and> nat (idx (i + int j)) < length (doubles h ! a)"
  shows "for_loop n i (\<lambda>i s. mbind (rd_dbl a (idx i)) (\<lambda>v. ret (s + v * v))) acc h =
         (Inr (acc + (\<Sum>j<n. doubles h ! a ! nat (idx (i + int j)) * doubles h ! a ! nat (idx (i + int j)))), h)"
  using assms(2)
proof (induction n arbitrary: i acc)
  case 0
  show ?case by (simp add: ret_def)
next
  case (Suc n)
  let ?f = "\<lambda>k. doubles h ! a ! nat (idx k) * doubles h ! a ! nat (idx k)"
  have first: "0 \<le> idx i \<and> nat (idx i) < length (doubles h ! a)"
    using Suc.prems [of 0] by simp
  have rest: "\<And>j. j < n \<Longrightarrow> 0 \<le> idx (i + 1 + int j) \<and> nat (idx (i + 1 + int j)) < length (doubles h ! a)"
  proof -
    fix j assume "j < n"
    then have "Suc j < Suc n" by simp
    moreover have "i + int (Suc j) = i + 1 + int j" by simp
    ultimately show "0 \<le> idx (i + 1 + int j) \<and> nat (idx (i + 1 + int j)) < length (doubles h ! a)"
      using Suc.prems [of "Suc j"] by metis
  qed
  have step: "mbind (rd_dbl a (idx i)) (\<lambda>v. ret (acc + v * v)) h = (Inr (acc + ?f i), h)"
    using first assms(1) by (simp add: mbind_def rd_dbl_def ret_def)
  have "for_loop (Suc n) i (\<lambda>i s. mbind (rd_dbl a (idx i)) (\<lambda>v. ret (s + v * v))) acc h =
        for_loop n (i + 1) (\<lambda>i s. mbind (rd_dbl a (idx i)) (\<lambda>v. ret (s + v * v))) (acc + ?f i) h"
    unfolding for_loop.simps by (rule mbind_Inr, rule step, rule refl)
  also have "\<dots> = (Inr (acc + ?f i + (\<Sum>j<n. ?f (i + 1 + int j))), h)"
    by (rule Suc.IH [OF rest])
  also have "acc + ?f i + (\<Sum>j<n. ?f (i + 1 + int j)) = acc + (\<Sum>j<Suc n. ?f (i + int j))"
  proof -
    have "(\<Sum>j<Suc n. ?f (i + int j)) = ?f (i + int 0) + (\<Sum>j<n. ?f (i + int (Suc j)))"
      by (rule sum.lessThan_Suc_shift)
    moreover have "\<And>j. i + int (Suc j) = i + 1 + int j" by simp
    ultimately show ?thesis by (simp add: add.assoc)
  qed
  finally show ?case .
qed

lemma diagonal_index_bound:
  fixes j n :: nat
  assumes "j < n"
  shows "j * n + j < n * n"
proof -
  have "j * n + j < j * n + n" using assms by simp
  also have "\<dots> = Suc j * n" by simp
  also have "\<dots> \<le> n * n" using assms by (intro mult_le_mono1) simp
  finally show ?thesis .
qed

lemma getEV_all:
  fixes h :: "('a::{comm_monoid_add,times}) mem"
  assumes "x < length (doubles h)" "nat (nr * nc) \<le> length (doubles h ! x)"
  shows "getEV x nr nc 0 h = (Inr (\<Sum>i<nat (nr * nc). doubles h ! x ! i * doubles h ! x ! i), h)"
proof -
  have "for_loop (nat (nr * nc)) 0 (\<lambda>i s. mbind (rd_dbl x ((\<lambda>k. k) i)) (\<lambda>v. ret (s + v * v))) 0 h =
        (Inr (0 + (\<Sum>j<nat (nr * nc). doubles h ! x ! nat (0 + int j) * doubles h ! x ! nat (0 + int j))), h)"
    using assms by (intro square_loop) auto
  then show ?thesis by (simp add: getEV_def for_range_def)
qed

lemma getEV_diag:
  fixes h :: "('a::{comm_monoid_add,times}) mem"
  assumes "x < length (doubles h)" "0 \<le> nr" "nat nr * nat nr \<le> length (doubles h ! x)"
  shows "getEV x nr nc 1 h =
         (Inr (\<Sum>i<nat nr. doubles h ! x ! (i * nat nr + i) * doubles h ! x ! (i * nat nr + i)), h)"
proof -
  have idx: "nat (int j * nr + int j) = j * nat nr + j" for j
    using assms(2) by (simp add: nat_add_distrib nat_mult_distrib)
  have "for_loop (nat nr) 0 (\<lambda>i s. mbind (rd_dbl x ((\<lambda>k. k * nr + k) i)) (\<lambda>v. ret (s + v * v))) 0 h =
        (Inr (0 + (\<Sum>j<nat nr. doubles h ! x ! nat ((\<lambda>k. k * nr + k) (0 + int j))
                               * doubles h ! x ! nat ((\<lambda>k. k * nr + k) (0 + int j)))), h)"
  proof (intro square_loop assms(1))
    fix j assume "j < nat nr"
    then have "j * nat nr + j < length (doubles h ! x)"
      using diagonal_index_bound [of j "nat nr"] assms(3) by linarith
    then show "0 \<le> (\<lambda>k. k * nr + k) (0 + int j) \<and>
               nat ((\<lambda>k. k * nr + k) (0 + int j)) < length (doubles h ! x)"
      using assms(2) by (simp add: idx)
  qed
  then show ?thesis by (simp add: getEV_def for_range_def idx)
qed

text \<open>
  Claim C6.  With \<open>isDB = 0\<close>, \<^verbatim>\<open>getEV\<close> returns the sum of the squares of the first
  \<open>nr * nc\<close> entries of \<open>x\<close>; with \<open>isDB = 1\<close> it returns the sum over \<open>i < nr\<close> of the
  square of the entry at \<open>i * nr + i\<close>, the diagonal of an \<open>nr\<close> by \<open>nr\<close> layout.  Neither
  changes the memory.  The matrix with rows (1, 2) and (3, 4) is stored by columns as
  1, 3, 2, 4: the results are 30 and 17.  The sums are those of a carrier in which
  addition is a commutative monoid, such as the reals.
\<close>

theorem getEV_sum_of_squares:
  fixes h :: "('a::{comm_monoid_add,times}) mem"
  assumes "x < length (doubles h)" and "0 \<le> nr" and "0 \<le> nc"
  shows "(nat (nr * nc) \<le> length (doubles h ! x) \<longrightarrow>
            getEV x nr nc 0 h =
              (Inr (\<Sum>i<nat (nr * nc). doubles h ! x ! i * doubles h ! x ! i), h))
       \<and> (nat nr * nat nr \<le> length (doubles h ! x) \<longrightarrow>
            getEV x nr nc 1 h =
              (Inr (\<Sum>i<nat nr. doubles h ! x ! (i * nat nr + i) * doubles h ! x ! (i * nat nr + i)), h))
       \<and> fst (getEV 0 2 2 0 \<lparr>doubles = [[1, 3, 2, 4 :: real]], integers = [], calls = []\<rparr>) = Inr 30
       \<and> fst (getEV 0 2 2 1 \<lparr>doubles = [[1, 3, 2, 4 :: real]], integers = [], calls = []\<rparr>) = Inr 17"
proof (intro conjI impI)
  assume "nat (nr * nc) \<le> length (doubles h ! x)"
  then show "getEV x nr nc 0 h =
      (Inr (\<Sum>i<nat (nr * nc). doubles h ! x ! i * doubles h ! x ! i), h)"
    using assms(1) by (rule getEV_all [rotated])
next
  assume "nat nr * nat nr \<le> length (doubles h ! x)"
  then show "getEV x nr nc 1 h =
      (Inr (\<Sum>i<nat nr. doubles h ! x ! (i * nat nr + i) * doubles h ! x ! (i * nat nr + i)), h)"
    using assms(1,2) by (intro getEV_diag)
next
  let ?h = "\<lparr>doubles = [[1, 3, 2, 4 :: real]], integers = [], calls = []\<rparr>"
  have "getEV 0 2 2 0 ?h = (Inr (\<Sum>i<nat (2 * 2). doubles ?h ! 0 ! i * doubles ?h ! 0 ! i), ?h)"
    by (rule getEV_all) simp_all
  moreover have "(\<Sum>i<4. [1, 3, 2, 4 :: real] ! i * [1, 3, 2, 4] ! i) = 30"
    by (simp add: lessThan_nat_numeral lessThan_Suc)
  ultimately show "fst (getEV 0 2 2 0 ?h) = Inr 30" by simp
next
  let ?h = "\<lparr>doubles = [[1, 3, 2, 4 :: real]], integers = [], calls = []\<rparr>"
  have "getEV 0 2 2 1 ?h =
      (Inr (\<Sum>i<nat 2. doubles ?h ! 0 ! (i * nat 2 + i) * doubles ?h ! 0 ! (i * nat 2 + i)), ?h)"
    by (rule getEV_diag) simp_all
  moreover have "(\<Sum>i<2. [1, 3, 2, 4 :: real] ! (i * 2 + i) * [1, 3, 2, 4] ! (i * 2 + i)) = 17"
    by (simp add: lessThan_nat_numeral lessThan_Suc)
  ultimately show "fst (getEV 0 2 2 1 ?h) = Inr 17" by simp
qed

theorem getEV_sum_of_squares_witness:
  "(0::nat) < length (doubles \<lparr>doubles = [[1, 2, 3, 4, 5, 6 :: real]], integers = [], calls = []\<rparr>)
   \<and> (0::int) \<le> 2 \<and> (0::int) \<le> 3
   \<and> nat (2 * 3) \<le> length (doubles \<lparr>doubles = [[1, 2, 3, 4, 5, 6 :: real]], integers = [], calls = []\<rparr> ! 0)
   \<and> nat 2 * nat 2 \<le> length (doubles \<lparr>doubles = [[1, 2, 3, 4, 5, 6 :: real]], integers = [], calls = []\<rparr> ! 0)
   \<and> getEV 0 2 3 0 \<lparr>doubles = [[1, 2, 3, 4, 5, 6 :: real]], integers = [], calls = []\<rparr>
       = (Inr 91, \<lparr>doubles = [[1, 2, 3, 4, 5, 6]], integers = [], calls = []\<rparr>)
   \<and> getEV 0 2 3 1 \<lparr>doubles = [[1, 2, 3, 4, 5, 6 :: real]], integers = [], calls = []\<rparr>
       = (Inr 17, \<lparr>doubles = [[1, 2, 3, 4, 5, 6]], integers = [], calls = []\<rparr>)"
  using getEV_sum_of_squares
    [where x = 0 and nr = 2 and nc = 3
       and h = "\<lparr>doubles = [[1, 2, 3, 4, 5, 6 :: real]], integers = [], calls = []\<rparr>"]
  by (simp add: lessThan_nat_numeral lessThan_Suc)

text \<open>
  Claim C10.  \<^verbatim>\<open>getEV\<close> computes a value only for the flags 0 and 1.  With any other
  flag no branch of the \<^verbatim>\<open>switch\<close> is taken, nothing is read from \<open>x\<close>, and the
  function returns its accumulator without ever having assigned it: the result is the
  read of an uninitialised local, whatever the matrix.  With flag 0 or 1, on a buffer that
  holds the entries read, it returns a value and leaves the memory as it was.
\<close>

theorem getEV_defined_for_flags_0_1_only:
  fixes h :: "('a::{comm_monoid_add,times}) mem"
  shows "(isDB \<noteq> 0 \<and> isDB \<noteq> 1 \<longrightarrow> getEV x nr nc isDB h = (Inl Uninitialised, h))
       \<and> ((isDB = 0 \<or> isDB = 1) \<and> x < length (doubles h) \<and> 0 \<le> nr \<and> 0 \<le> nc
            \<and> nat (nr * nc) \<le> length (doubles h ! x) \<and> nat nr * nat nr \<le> length (doubles h ! x)
          \<longrightarrow> (\<exists>v. getEV x nr nc isDB h = (Inr v, h)))"
proof (intro conjI impI)
  assume "isDB \<noteq> 0 \<and> isDB \<noteq> 1"
  then show "getEV x nr nc isDB h = (Inl Uninitialised, h)"
    by (simp add: getEV_def fail_def)
next
  assume a: "(isDB = 0 \<or> isDB = 1) \<and> x < length (doubles h) \<and> 0 \<le> nr \<and> 0 \<le> nc
            \<and> nat (nr * nc) \<le> length (doubles h ! x) \<and> nat nr * nat nr \<le> length (doubles h ! x)"
  then consider "isDB = 0" | "isDB = 1" by blast
  then show "\<exists>v. getEV x nr nc isDB h = (Inr v, h)"
  proof cases
    case 1
    then show ?thesis using a getEV_all [of x h nr nc] by blast
  next
    case 2
    then show ?thesis using a getEV_diag [of x h nr nc] by blast
  qed
qed

theorem getEV_defined_for_flags_0_1_only_witness:
  "getEV 0 2 2 2 \<lparr>doubles = [[1, 3, 2, 4 :: real]], integers = [], calls = []\<rparr>
     = (Inl Uninitialised, \<lparr>doubles = [[1, 3, 2, 4]], integers = [], calls = []\<rparr>)
   \<and> getEV 0 2 2 (-1) \<lparr>doubles = [[1, 3, 2, 4 :: real]], integers = [], calls = []\<rparr>
     = (Inl Uninitialised, \<lparr>doubles = [[1, 3, 2, 4]], integers = [], calls = []\<rparr>)
   \<and> (\<exists>v. getEV 0 2 2 1 \<lparr>doubles = [[1, 3, 2, 4 :: real]], integers = [], calls = []\<rparr>
     = (Inr v, \<lparr>doubles = [[1, 3, 2, 4]], integers = [], calls = []\<rparr>))"
  using getEV_defined_for_flags_0_1_only
    [where x = 0 and nr = 2 and nc = 2 and isDB = 2
       and h = "\<lparr>doubles = [[1, 3, 2, 4 :: real]], integers = [], calls = []\<rparr>"]
    getEV_defined_for_flags_0_1_only
    [where x = 0 and nr = 2 and nc = 2 and isDB = "-1"
       and h = "\<lparr>doubles = [[1, 3, 2, 4 :: real]], integers = [], calls = []\<rparr>"]
    getEV_defined_for_flags_0_1_only
    [where x = 0 and nr = 2 and nc = 2 and isDB = 1
       and h = "\<lparr>doubles = [[1, 3, 2, 4 :: real]], integers = [], calls = []\<rparr>"]
  by simp

section \<open>The status of \<^verbatim>\<open>dqrsl\<close>\<close>

lemma mbind_ret_fun: "mbind (ret r) f = f r"
  by (simp add: fun_eq_iff)

lemma mbind_fail_fun: "mbind (fail e) f = fail e"
  by (simp add: fun_eq_iff fail_def)

lemma mbind_assoc: "mbind (mbind m f) g = mbind m (\<lambda>x. mbind (f x) g)"
  by (simp add: fun_eq_iff mbind_def split: prod.splits sum.splits)

lemma mbind_if: "mbind (if c then a else b) g = (if c then mbind a g else mbind b g)"
  by simp

text \<open>Both calls of \<^verbatim>\<open>dqrsl\<close> are followed by nothing that reads \<^verbatim>\<open>info\<close>.\<close>

lemma F77_dqrsl_status:
  "mbind (F77_dqrsl (with_status st ext) x ldx n k qraux y qty rsd xb job) (\<lambda>info. ret ())
   = mbind (F77_dqrsl ext x ldx n k qraux y qty rsd xb job) (\<lambda>info. ret ())"
  by (simp add: F77_dqrsl_def with_status_def mbind_assoc mbind_ret_fun mbind_fail_fun mbind_if)

lemma partial_model_status: "partial_model (with_status st ext) L = partial_model ext L"
  by (simp add: partial_model_def F77_dqrsl_status cong: option.case_cong if_cong)

lemma design_model_status: "design_model (with_status st ext) L = design_model ext L"
  by (simp add: design_model_def F77_dqrsl_status)

lemma R_alloc_double_status: "R_alloc_double (with_status st ext) = R_alloc_double ext"
  by (simp add: fun_eq_iff R_alloc_double_def with_status_def)

lemma R_alloc_int_status: "R_alloc_int (with_status st ext) = R_alloc_int ext"
  by (simp add: fun_eq_iff R_alloc_int_def with_status_def)

lemma F77_dgesdd_status: "F77_dgesdd (with_status st ext) = F77_dgesdd ext"
  by (simp add: fun_eq_iff F77_dgesdd_def with_status_def cong: option.case_cong if_cong)

lemma svdfirst_status: "svdfirst (with_status st ext) = svdfirst ext"
proof -
  have "double_to_int (with_status st ext) = double_to_int ext"
    by (simp add: with_status_def)
  then show ?thesis
    by (simp add: fun_eq_iff svdfirst_def R_alloc_double_status R_alloc_int_status
        F77_dgesdd_status cong: if_cong)
qed

lemma project_row_status: "project_row (with_status st ext) L k = project_row ext L k"
  by (simp add: project_row_def partial_model_status design_model_status)

lemma getF_row_status: "getF_row (with_status st ext) L k = getF_row ext L k"
  by (simp add: getF_row_def project_row_status eigenvalues_def svdfirst_status cong: if_cong)

lemma getF_setup_status:
  "getF_setup (with_status st ext) perms E QR QZ first isPartial
   = getF_setup ext perms E QR QZ first isPartial"
  by (simp add: getF_setup_def allocMatrix_REALSXP_def R_alloc_double_status
      cong: option.case_cong if_cong)

text \<open>
  \<^verbatim>\<open>do_getF\<close> hands \<^verbatim>\<open>info\<close> to every call of \<^verbatim>\<open>dqrsl\<close> and reads it after none:
  its result and the memory it leaves are the same whatever status the routine reports.
\<close>

lemma do_getF_ignores_dqrsl_status:
  "do_getF (with_status st ext) perms E QR QZ first isPartial h
   = do_getF ext perms E QR QZ first isPartial h"
  by (simp add: do_getF_def getF_setup_status getF_row_status)

section \<open>The modes requested from \<^verbatim>\<open>dqrsl\<close>\<close>

lemma triple_of_keeps: "keeps I f R \<Longrightarrow> triple I f (\<lambda>_. I) (\<lambda>_. True)"
  unfolding keeps_def by (erule triple_conseq) simp_all

lemma triple_of_keeps_result: "keeps I f R \<Longrightarrow> triple I f (\<lambda>r h. I h \<and> R r) (\<lambda>_. True)"
  unfolding keeps_def by (erule triple_conseq) simp_all

lemma triple_if:
  "(c \<Longrightarrow> triple P f Q E) \<Longrightarrow> (\<not> c \<Longrightarrow> triple P g Q E) \<Longrightarrow> triple P (if c then f else g) Q E"
  by simp

lemma triple_for_range:
  assumes "\<And>j acc. j < nat (hi - lo) \<Longrightarrow> triple (I j) (body (lo + int j) acc) (\<lambda>_. I (Suc j)) E"
  shows "triple (I 0) (for_range lo hi body acc) (\<lambda>_. I (nat (hi - lo))) E"
  unfolding for_range_def by (rule triple_for_loop) (rule assms)

lemma stable_design_count:
  "stable (design_count Cs J c) UNIV UNIV UNIV (\<lambda>cl. design_jobs [cl] = [])"
proof -
  have "stable (\<lambda>h. 0 \<le> length (doubles h) \<and> take (length Cs) (calls h) = Cs
                    \<and> design_jobs (drop (length Cs) (calls h)) = replicate c J)
          {0..} UNIV UNIV (\<lambda>cl. design_jobs [cl] = [])"
    by (rule stable_calls) (simp add: design_jobs_append)
  moreover have "{0::nat..} = UNIV" by auto
  ultimately show ?thesis by (simp add: design_count_def [abs_def])
qed

lemma log_design_call:
  "triple (design_count Cs J c) (log_call (Dqrsl_call x k y rsd (Some xb) J))
     (\<lambda>_. design_count Cs J (Suc c)) (\<lambda>_. True)"
proof (rule tripleI)
  fix h :: "'a mem"
  assume a: "design_count Cs J c h"
  then have le: "length Cs \<le> length (calls h)"
    by (auto simp: design_count_def intro: take_eq_imp_le)
  have "replicate c J @ [J] = replicate (Suc c) J"
    by (simp add: replicate_append_same)
  with a le have "design_count Cs J (Suc c) (h\<lparr>calls := calls h @ [Dqrsl_call x k y rsd (Some xb) J]\<rparr>)"
    by (simp add: design_count_def design_jobs_append)
  then show "case log_call (Dqrsl_call x k y rsd (Some xb) J) h of
      (Inr r, h') \<Rightarrow> design_count Cs J (Suc c) h' | (Inl e, h') \<Rightarrow> True"
    by (simp add: log_call_def)
qed

lemma design_call_counts:
  "triple (design_count Cs J c)
     (F77_dqrsl ext x ldx n k qraux y qty rsd (Some xb) J)
     (\<lambda>_. design_count Cs J (Suc c)) (\<lambda>_. True)"
  unfolding F77_dqrsl_def
  apply (rule triple_if)
   apply (rule triple_fail, simp)
  apply (rule triple_mbind [OF triple_of_keeps [OF keeps_rd_array]])
  apply (rule triple_mbind [OF triple_of_keeps [OF keeps_rd_array]])
  apply (rule triple_mbind [OF triple_of_keeps [OF keeps_rd_block]])
  apply (rule triple_mbind [OF triple_of_keeps [OF keeps_rd_target]])
  apply (rule triple_mbind [OF triple_of_keeps [OF keeps_rd_target]])
  apply (rule triple_mbind [OF triple_of_keeps [OF keeps_rd_target]])
  apply (rule triple_mbind [OF log_design_call])
  apply (rule triple_mbind [OF triple_of_keeps [OF keeps_wr_target [OF stable_design_count]]], simp)
  apply (rule triple_mbind [OF triple_of_keeps [OF keeps_wr_target [OF stable_design_count]]], simp)
  apply (rule triple_mbind [OF triple_of_keeps [OF keeps_wr_target [OF stable_design_count]]], simp)
  apply (rule triple_ret, simp)
  done

lemma design_model_counts:
  assumes "J = (if loc_PARTIAL L \<noteq> 0 \<or> loc_FIRST L \<noteq> 0 then FIT + RESID else FIT)"
  shows "triple (design_count Cs J c) (design_model ext L)
     (\<lambda>_. design_count Cs J (c + nat (loc_nc L))) (\<lambda>_. True)"
proof -
  have body: "triple (design_count Cs J (c + j))
      (mbind (F77_dqrsl ext x ldx n k qraux y qty rsd (Some xb) J) (\<lambda>info. ret ()))
      (\<lambda>_. design_count Cs J (c + Suc j)) (\<lambda>_. True)" for j x ldx n k qraux y qty rsd xb
    unfolding add_Suc_right
    by (rule triple_mbind [OF design_call_counts], rule triple_ret, simp)
  have "triple (design_count Cs J (c + 0)) (design_model ext L)
     (\<lambda>_. design_count Cs J (c + nat (loc_nc L - 0))) (\<lambda>_. True)"
    unfolding design_model_def assms [symmetric]
    by (rule triple_for_range [where I = "\<lambda>j. design_count Cs J (c + j)"]) (rule body)
  then show ?thesis by simp
qed

lemma getF_row_counts:
  assumes "J = (if loc_PARTIAL L \<noteq> 0 \<or> loc_FIRST L \<noteq> 0 then FIT + RESID else FIT)"
  shows "triple (design_count Cs J c) (getF_row ext L k)
     (\<lambda>_. design_count Cs J (c + nat (loc_nc L))) (\<lambda>_. True)"
  unfolding getF_row_def project_row_def
  apply (rule triple_mbind [where Q = "\<lambda>_. design_count Cs J (c + nat (loc_nc L))"])
   apply (rule triple_mbind [OF triple_of_keeps [OF keeps_permute_row [OF stable_design_count]]], simp)
   apply (rule triple_mbind [OF triple_of_keeps [OF keeps_partial_model [OF stable_design_count]]])
      apply simp
     apply simp
    apply simp
   apply (rule design_model_counts [OF assms])
  apply (rule triple_of_keeps [OF keeps_eigenvalues [OF stable_design_count]])
    apply simp_all
  done

lemma do_getF_counts:
  "triple (design_count Cs (if isPartial \<noteq> 0 \<or> first \<noteq> 0 then FIT + RESID else FIT) 0)
     (do_getF ext perms E QR QZ first isPartial)
     (\<lambda>_. design_count Cs (if isPartial \<noteq> 0 \<or> first \<noteq> 0 then FIT + RESID else FIT)
            (nat (nrows perms) * nat (ncols E)))
     (\<lambda>_. True)"
  unfolding do_getF_def
proof (rule triple_mbind [OF triple_of_keeps_result [OF keeps_getF_setup [OF stable_design_count]]],
    rule triple_gen_asm)
  let ?J = "if isPartial \<noteq> 0 \<or> first \<noteq> 0 then FIT + RESID else FIT"
  fix L :: locals
  assume L: "addr (loc_ans L) \<in> UNIV \<and> loc_rY L \<in> UNIV \<and> loc_fitted L \<in> UNIV
      \<and> loc_resid L \<in> UNIV \<and> loc_qty L \<in> UNIV \<and> loc_iperm L \<in> UNIV
      \<and> loc_FIRST L = first \<and> loc_PARTIAL L = isPartial
      \<and> loc_nperm L = nrows perms \<and> loc_nr L = nrows E \<and> loc_nc L = ncols E"
  then have J: "?J = (if loc_PARTIAL L \<noteq> 0 \<or> loc_FIRST L \<noteq> 0 then FIT + RESID else FIT)"
    by simp
  have loop: "triple (design_count Cs ?J (0 * nat (loc_nc L)))
      (for_range 0 (loc_nperm L) (\<lambda>k _. getF_row ext L k) ())
      (\<lambda>_. design_count Cs ?J (nat (loc_nperm L - 0) * nat (loc_nc L))) (\<lambda>_. True)"
  proof (rule triple_for_range [where I = "\<lambda>j. design_count Cs ?J (j * nat (loc_nc L))"])
    fix j :: nat and acc :: unit
    have "triple (design_count Cs ?J (j * nat (loc_nc L))) (getF_row ext L (0 + int j))
        (\<lambda>_. design_count Cs ?J (j * nat (loc_nc L) + nat (loc_nc L))) (\<lambda>_. True)"
      by (rule getF_row_counts [OF J])
    then show "triple (design_count Cs ?J (j * nat (loc_nc L))) (getF_row ext L (0 + int j))
        (\<lambda>_. design_count Cs ?J (Suc j * nat (loc_nc L))) (\<lambda>_. True)"
      by (simp add: add.commute)
  qed
  show "triple (design_count Cs ?J 0)
      (mbind (for_range 0 (loc_nperm L) (\<lambda>k _. getF_row ext L k) ()) (\<lambda>_. ret (loc_ans L)))
      (\<lambda>_. design_count Cs ?J (nat (nrows perms) * nat (ncols E))) (\<lambda>_. True)"
  proof (rule triple_mbind)
    show "triple (design_count Cs ?J 0)
        (for_range 0 (loc_nperm L) (\<lambda>k _. getF_row ext L k) ())
        (\<lambda>_. design_count Cs ?J (nat (nrows perms) * nat (ncols E))) (\<lambda>_. True)"
      using loop L by simp
    show "triple (design_count Cs ?J (nat (nrows perms) * nat (ncols E))) (ret (loc_ans L))
        (\<lambda>_. design_count Cs ?J (nat (nrows perms) * nat (ncols E))) (\<lambda>_. True)" for r :: unit
      by (rule triple_ret)
  qed
qed

text \<open>Whether the run returns or not, no call on the design factorization has another mode.\<close>

lemma do_getF_design_jobs_any:
  "set (design_jobs (drop (length (calls h))
      (calls (snd (do_getF ext perms E QR QZ first isPartial h)))))
   \<subseteq> {if isPartial \<noteq> 0 \<or> first \<noteq> 0 then FIT + RESID else FIT}"
proof -
  let ?J = "if isPartial \<noteq> 0 \<or> first \<noteq> 0 then FIT + RESID else FIT"
  let ?I = "\<lambda>h'. 0 \<le> length (doubles h') \<and> take (length (calls h)) (calls h') = calls h
      \<and> set (design_jobs (drop (length (calls h)) (calls h'))) \<subseteq> {?J}"
  have st: "stable ?I {0..} UNIV UNIV (\<lambda>c. set (design_jobs [c]) \<subseteq> {?J})"
    by (rule stable_calls) (auto simp: design_jobs_append)
  have "?I (snd (do_getF ext perms E QR QZ first isPartial h))"
    by (rule keepsD [OF keeps_do_getF [OF st]]) simp_all
  then show ?thesis by simp
qed

section \<open>What \<^verbatim>\<open>svdfirst\<close> returns\<close>

lemma map_nth_take: "n \<le> length xs \<Longrightarrow> map ((!) xs) [0..<n] = take n xs"
proof -
  assume "n \<le> length xs"
  have "take n xs = take n (map ((!) xs) [0..<length xs])" by (simp add: map_nth)
  also have "\<dots> = map ((!) xs) (take n [0..<length xs])" by (rule take_map)
  also have "take n [0..<length xs] = [0..<n]" using \<open>n \<le> length xs\<close> by simp
  finally show ?thesis by simp
qed

text \<open>After the copying loop, the new array holds the first \<open>nr * nc\<close> entries of \<open>x\<close>.\<close>

lemma svdfirst_copy:
  assumes "x < length (doubles h)" and "nat len \<le> length (doubles h ! x)"
  shows "for_range 0 len (\<lambda>i _. mbind (rd_dbl x i) (\<lambda>v. wr_dbl (length (doubles h)) i v)) ()
           (h\<lparr>doubles := doubles h @ [map (fresh_double ext (length (doubles h))) [0..<nat len]]\<rparr>)
         = (Inr (), h\<lparr>doubles := doubles h @ [take (nat len) (doubles h ! x)]\<rparr>)"
proof -
  let ?J = "map (fresh_double ext (length (doubles h))) [0..<nat len]"
  let ?h1 = "h\<lparr>doubles := doubles h @ [?J]\<rparr>"
  have "for_loop (nat len) 0 (\<lambda>i _. mbind (rd_dbl x i) (\<lambda>v. wr_dbl (length (doubles h)) i v)) () ?h1
      = (Inr (), ?h1\<lparr>doubles := (doubles ?h1)[length (doubles h) :=
            map (\<lambda>j. if nat 0 \<le> j \<and> j < nat 0 + nat len then doubles ?h1 ! x ! j
                      else doubles ?h1 ! length (doubles h) ! j)
              [0..<length (doubles ?h1 ! length (doubles h))]]\<rparr>)"
    using assms by (intro copy_loop) (simp_all add: nth_append)
  moreover have "map (\<lambda>j. if nat 0 \<le> j \<and> j < nat 0 + nat len then doubles ?h1 ! x ! j
                      else doubles ?h1 ! length (doubles h) ! j)
              [0..<length (doubles ?h1 ! length (doubles h))]
      = take (nat len) (doubles h ! x)"
  proof -
    have "map (\<lambda>j. if nat 0 \<le> j \<and> j < nat 0 + nat len then doubles ?h1 ! x ! j
                      else doubles ?h1 ! length (doubles h) ! j)
              [0..<length (doubles ?h1 ! length (doubles h))]
        = map ((!) (doubles h ! x)) [0..<nat len]"
      using assms(1) by (auto simp: nth_append)
    then show ?thesis using assms(2) by (simp add: map_nth_take)
  qed
  ultimately show ?thesis by (simp add: for_range_def)
qed

lemma svdfirst_result:
  assumes "x < length (doubles h)" and "nat (nr * nc) \<le> length (doubles h ! x)"
  shows "fst (svdfirst ext x nr nc h) =
     (if nr * nc < 0 then Inl Alloc_failed
      else if (if nr < nc then nr else nc) < 0 then Inl Alloc_failed
      else if dg_info (dgesdd_query ext (take (nat (nr * nc)) (doubles h ! x)) nr nc) \<noteq> 0
        then Inl (Lapack_dgesdd
               (dg_info (dgesdd_query ext (take (nat (nr * nc)) (doubles h ! x)) nr nc)))
      else if double_to_int ext
               (work_out (dgesdd_query ext (take (nat (nr * nc)) (doubles h ! x)) nr nc) 0) < 0
        then Inl Alloc_failed
      else if dg_info (dgesdd_decomp ext (take (nat (nr * nc)) (doubles h ! x)) nr nc) \<noteq> 0
        then Inl (Lapack_dgesdd_pos2
               (dg_info (dgesdd_decomp ext (take (nat (nr * nc)) (doubles h ! x)) nr nc)))
      else if (if nr < nc then nr else nc) = 0 then Inl Out_of_bounds
      else Inr (s_out (dgesdd_decomp ext (take (nat (nr * nc)) (doubles h ! x)) nr nc) 0))"
  using assms
  by (simp add: svdfirst_def mbind_def R_alloc_double_def R_alloc_int_def svdfirst_copy
      F77_dgesdd_def rd_block_def wr_block_def wr_block_int_def log_call_def ret_def fail_def
      rd_dbl_def dgesdd_query_def dgesdd_decomp_def nth_append)

section \<open>What is there when the loop starts\<close>

lemma allocMatrix_REALSXP_success:
  assumes "allocMatrix_REALSXP ext nrow ncol h = (Inr m, h')"
  shows "0 \<le> nrow \<and> 0 \<le> ncol \<and> m = \<lparr>addr = length (doubles h), nrows = nrow, ncols = ncol\<rparr>
     \<and> h' = h\<lparr>doubles := doubles h
           @ [map (fresh_double ext (length (doubles h))) [0..<nat (nrow * ncol)]]\<rparr>"
  using assms
  by (auto simp: allocMatrix_REALSXP_def R_alloc_double_def mbind_def ret_def fail_def
      split: if_splits)

lemma R_alloc_double_success:
  assumes "R_alloc_double ext n h = (Inr a, h')"
  shows "0 \<le> n \<and> a = length (doubles h)
     \<and> h' = h\<lparr>doubles := doubles h @ [map (fresh_double ext (length (doubles h))) [0..<nat n]]\<rparr>"
  using assms by (auto simp: R_alloc_double_def split: if_splits)

lemma duplicate_REALSXP_success:
  assumes "duplicate_REALSXP m h = (Inr m', h')"
  shows "addr m < length (doubles h) \<and> m' = m\<lparr>addr := length (doubles h)\<rparr>
     \<and> h' = h\<lparr>doubles := doubles h @ [doubles h ! addr m]\<rparr>"
  using assms by (auto simp: duplicate_REALSXP_def split: if_splits)

lemma duplicate_INTSXP_success:
  assumes "duplicate_INTSXP m h = (Inr m', h')"
  shows "addr m < length (integers h) \<and> m' = m\<lparr>addr := length (integers h)\<rparr>
     \<and> h' = h\<lparr>integers := integers h @ [integers h ! addr m]\<rparr>"
  using assms by (auto simp: duplicate_INTSXP_def split: if_splits)

lemma fetch_QZ_success:
  assumes "(if isPartial \<noteq> 0
            then (case QZ of None \<Rightarrow> fail Not_a_list | Some z \<Rightarrow> ret (Some z))
            else ret None) h = (Inr Z, h')"
  shows "h' = h \<and> Z = (if isPartial \<noteq> 0 then QZ else None)"
  using assms by (auto simp: ret_def fail_def split: if_splits option.splits)

lemma ret_success: "ret r h = (Inr r', h') \<Longrightarrow> r' = r \<and> h' = h"
  by (auto simp: ret_def)

lemma decrement_range_frame:
  assumes "for_range lo hi (\<lambda>i _. mbind (rd_int a i) (\<lambda>v. wr_int a i (v - 1))) () h = (r, h')"
  shows "doubles h' = doubles h \<and> calls h' = calls h
     \<and> length (integers h') = length (integers h)
     \<and> (\<forall>b. b \<noteq> a \<longrightarrow> integers h' ! b = integers h ! b)"
  using assms unfolding for_range_def by (rule decrement_loop_frame)

lemma getF_setup_steps:
  assumes "getF_setup ext perms E QR QZ first isPartial h = (Inr L, h1)"
  obtains ans Y Z fitted resid qty dperms ha hb hc hd he hf hg hi where
    "allocMatrix_REALSXP ext (nrows perms) 2 h = (Inr ans, ha)" and
    "duplicate_REALSXP E ha = (Inr Y, hb)" and
    "(if isPartial \<noteq> 0
            then (case QZ of None \<Rightarrow> fail Not_a_list | Some z \<Rightarrow> ret (Some z))
            else ret None) hb = (Inr Z, hc)" and
    "R_alloc_double ext (nrows E * ncols E) hc = (Inr fitted, hd)" and
    "R_alloc_double ext (nrows E * ncols E) hd = (Inr resid, he)" and
    "R_alloc_double ext (nrows E) he = (Inr qty, hf)" and
    "duplicate_INTSXP perms hf = (Inr dperms, hg)" and
    "for_range 0 (nrows perms * nrows E)
           (\<lambda>i _. mbind (rd_int (addr dperms) i) (\<lambda>v. wr_int (addr dperms) i (v - 1))) () hg
         = (Inr (), hi)" and
    "ret \<lparr>loc_nperm = nrows perms, loc_nr = nrows E, loc_nc = ncols E,
          loc_FIRST = first, loc_PARTIAL = isPartial, loc_ans = ans, loc_rY = addr Y,
          loc_E = addr E, loc_qr = elt0 QR, loc_qrank = elt1 QR, loc_qraux = elt2 QR,
          loc_Z = Z, loc_fitted = fitted, loc_resid = resid, loc_qty = qty,
          loc_iperm = addr dperms\<rparr> hi = (Inr L, h1)"
  using assms unfolding getF_setup_def by (elim mbind_success) auto

text \<open>
  The locals and the memory after the part of \<^verbatim>\<open>do_getF\<close> that precedes the loop:
  five new arrays of doubles, in the order of their allocation, and one new array of
  integers.
\<close>

lemma getF_setup_success:
  assumes "getF_setup ext perms E QR QZ first isPartial h = (Inr L, h1)"
    and E: "addr E < length (doubles h)"
  shows "L = \<lparr>loc_nperm = nrows perms, loc_nr = nrows E, loc_nc = ncols E,
          loc_FIRST = first, loc_PARTIAL = isPartial,
          loc_ans = \<lparr>addr = length (doubles h), nrows = nrows perms, ncols = 2\<rparr>,
          loc_rY = length (doubles h) + 1,
          loc_E = addr E, loc_qr = elt0 QR, loc_qrank = elt1 QR, loc_qraux = elt2 QR,
          loc_Z = (if isPartial \<noteq> 0 then QZ else None),
          loc_fitted = length (doubles h) + 2, loc_resid = length (doubles h) + 3,
          loc_qty = length (doubles h) + 4, loc_iperm = length (integers h)\<rparr>"
    and "doubles h1 = doubles h @
          [map (fresh_double ext (length (doubles h))) [0..<nat (nrows perms * 2)],
           doubles h ! addr E,
           map (fresh_double ext (length (doubles h) + 2)) [0..<nat (nrows E * ncols E)],
           map (fresh_double ext (length (doubles h) + 3)) [0..<nat (nrows E * ncols E)],
           map (fresh_double ext (length (doubles h) + 4)) [0..<nat (nrows E)]]"
    and "calls h1 = calls h"
    and "length (integers h1) = Suc (length (integers h))"
    and "0 \<le> nrows perms" and "0 \<le> nrows E * ncols E" and "0 \<le> nrows E"
    and "addr perms < length (integers h)"
proof -
  from assms(1) obtain ans Y Z fitted resid qty dperms ha hb hc hd he hf hg hi where
    s1: "allocMatrix_REALSXP ext (nrows perms) 2 h = (Inr ans, ha)" and
    s2: "duplicate_REALSXP E ha = (Inr Y, hb)" and
    s3: "(if isPartial \<noteq> 0
            then (case QZ of None \<Rightarrow> fail Not_a_list | Some z \<Rightarrow> ret (Some z))
            else ret None) hb = (Inr Z, hc)" and
    s4: "R_alloc_double ext (nrows E * ncols E) hc = (Inr fitted, hd)" and
    s5: "R_alloc_double ext (nrows E * ncols E) hd = (Inr resid, he)" and
    s6: "R_alloc_double ext (nrows E) he = (Inr qty, hf)" and
    s7: "duplicate_INTSXP perms hf = (Inr dperms, hg)" and
    s8: "for_range 0 (nrows perms * nrows E)
           (\<lambda>i _. mbind (rd_int (addr dperms) i) (\<lambda>v. wr_int (addr dperms) i (v - 1))) () hg
         = (Inr (), hi)" and
    s9: "ret \<lparr>loc_nperm = nrows perms, loc_nr = nrows E, loc_nc = ncols E,
          loc_FIRST = first, loc_PARTIAL = isPartial, loc_ans = ans, loc_rY = addr Y,
          loc_E = addr E, loc_qr = elt0 QR, loc_qrank = elt1 QR, loc_qraux = elt2 QR,
          loc_Z = Z, loc_fitted = fitted, loc_resid = resid, loc_qty = qty,
          loc_iperm = addr dperms\<rparr> hi = (Inr L, h1)"
    by (rule getF_setup_steps)
  note f1 = allocMatrix_REALSXP_success [OF s1]
  note f2 = duplicate_REALSXP_success [OF s2]
  note f3 = fetch_QZ_success [OF s3]
  note f4 = R_alloc_double_success [OF s4]
  note f5 = R_alloc_double_success [OF s5]
  note f6 = R_alloc_double_success [OF s6]
  note f7 = duplicate_INTSXP_success [OF s7]
  note f8 = decrement_range_frame [OF s8]
  note f9 = ret_success [OF s9]
  have n3: "n + 3 = Suc (Suc (Suc n))" and n4: "n + 4 = Suc (Suc (Suc (Suc n)))" for n :: nat
    by simp_all
  have dhg: "doubles hg = doubles h @
          [map (fresh_double ext (length (doubles h))) [0..<nat (nrows perms * 2)],
           doubles h ! addr E,
           map (fresh_double ext (length (doubles h) + 2)) [0..<nat (nrows E * ncols E)],
           map (fresh_double ext (length (doubles h) + 3)) [0..<nat (nrows E * ncols E)],
           map (fresh_double ext (length (doubles h) + 4)) [0..<nat (nrows E)]]"
    using f1 f2 f3 f4 f5 f6 f7 E by (simp add: nth_append n3 n4)
  show "doubles h1 = doubles h @
          [map (fresh_double ext (length (doubles h))) [0..<nat (nrows perms * 2)],
           doubles h ! addr E,
           map (fresh_double ext (length (doubles h) + 2)) [0..<nat (nrows E * ncols E)],
           map (fresh_double ext (length (doubles h) + 3)) [0..<nat (nrows E * ncols E)],
           map (fresh_double ext (length (doubles h) + 4)) [0..<nat (nrows E)]]"
    using dhg f8 f9 by simp
  show "calls h1 = calls h" using f1 f2 f3 f4 f5 f6 f7 f8 f9 by simp
  show "length (integers h1) = Suc (length (integers h))"
    using f1 f2 f3 f4 f5 f6 f7 f8 f9 by simp
  show "0 \<le> nrows perms" using f1 by simp
  show "0 \<le> nrows E * ncols E" using f4 by simp
  show "0 \<le> nrows E" using f6 by simp
  show "addr perms < length (integers h)" using f1 f2 f3 f4 f5 f6 f7 by simp
  show "L = \<lparr>loc_nperm = nrows perms, loc_nr = nrows E, loc_nc = ncols E,
          loc_FIRST = first, loc_PARTIAL = isPartial,
          loc_ans = \<lparr>addr = length (doubles h), nrows = nrows perms, ncols = 2\<rparr>,
          loc_rY = length (doubles h) + 1,
          loc_E = addr E, loc_qr = elt0 QR, loc_qrank = elt1 QR, loc_qraux = elt2 QR,
          loc_Z = (if isPartial \<noteq> 0 then QZ else None),
          loc_fitted = length (doubles h) + 2, loc_resid = length (doubles h) + 3,
          loc_qty = length (doubles h) + 4, loc_iperm = length (integers h)\<rparr>"
    using f1 f2 f3 f4 f5 f6 f7 f9 by (simp add: n3 n4)
qed

text \<open>If the permutation matrix has \<open>nperm\<close> times \<open>nr\<close> entries, its copy holds each of
  them less one when the loop starts.\<close>

lemma map_nth_minus: "map (\<lambda>j. xs ! j - (1::int)) [0..<length xs] = map (\<lambda>v. v - 1) xs"
  by (rule nth_equalityI) simp_all

lemma getF_setup_perms:
  assumes "getF_setup ext perms E QR QZ first isPartial h = (Inr L, h1)"
    and len: "length (integers h ! addr perms) = nat (nrows perms * nrows E)"
  shows "integers h1 = integers h @ [map (\<lambda>v. v - 1) (integers h ! addr perms)]"
    and "loc_iperm L = length (integers h)"
proof -
  from assms(1) obtain ans Y Z fitted resid qty dperms ha hb hc hd he hf hg hi where
    s1: "allocMatrix_REALSXP ext (nrows perms) 2 h = (Inr ans, ha)" and
    s2: "duplicate_REALSXP E ha = (Inr Y, hb)" and
    s3: "(if isPartial \<noteq> 0
            then (case QZ of None \<Rightarrow> fail Not_a_list | Some z \<Rightarrow> ret (Some z))
            else ret None) hb = (Inr Z, hc)" and
    s4: "R_alloc_double ext (nrows E * ncols E) hc = (Inr fitted, hd)" and
    s5: "R_alloc_double ext (nrows E * ncols E) hd = (Inr resid, he)" and
    s6: "R_alloc_double ext (nrows E) he = (Inr qty, hf)" and
    s7: "duplicate_INTSXP perms hf = (Inr dperms, hg)" and
    s8: "for_range 0 (nrows perms * nrows E)
           (\<lambda>i _. mbind (rd_int (addr dperms) i) (\<lambda>v. wr_int (addr dperms) i (v - 1))) () hg
         = (Inr (), hi)" and
    s9: "ret \<lparr>loc_nperm = nrows perms, loc_nr = nrows E, loc_nc = ncols E,
          loc_FIRST = first, loc_PARTIAL = isPartial, loc_ans = ans, loc_rY = addr Y,
          loc_E = addr E, loc_qr = elt0 QR, loc_qrank = elt1 QR, loc_qraux = elt2 QR,
          loc_Z = Z, loc_fitted = fitted, loc_resid = resid, loc_qty = qty,
          loc_iperm = addr dperms\<rparr> hi = (Inr L, h1)"
    by (rule getF_setup_steps)
  let ?P = "integers h ! addr perms"
  have ihf: "integers hf = integers h"
    using allocMatrix_REALSXP_success [OF s1] duplicate_REALSXP_success [OF s2]
      fetch_QZ_success [OF s3] R_alloc_double_success [OF s4] R_alloc_double_success [OF s5]
      R_alloc_double_success [OF s6] by simp
  note f7 = duplicate_INTSXP_success [OF s7]
  have ihg: "integers hg = integers h @ [?P]" and dp: "addr dperms = length (integers h)"
    using f7 ihf by simp_all
  have "for_loop (nat (nrows perms * nrows E)) 0
          (\<lambda>i _. mbind (rd_int (addr dperms) i) (\<lambda>v. wr_int (addr dperms) i (v - 1))) () hg
      = (Inr (), hg\<lparr>integers := (integers hg)[addr dperms :=
            map (\<lambda>j. if nat 0 \<le> j \<and> j < nat 0 + nat (nrows perms * nrows E)
                      then integers hg ! addr dperms ! j - 1 else integers hg ! addr dperms ! j)
              [0..<length (integers hg ! addr dperms)]]\<rparr>)"
    by (rule decrement_loop) (simp_all add: ihg dp len)
  moreover have "map (\<lambda>j. if nat 0 \<le> j \<and> j < nat 0 + nat (nrows perms * nrows E)
                      then integers hg ! addr dperms ! j - 1 else integers hg ! addr dperms ! j)
              [0..<length (integers hg ! addr dperms)] = map (\<lambda>v. v - 1) ?P"
  proof -
    have "map (\<lambda>j. if nat 0 \<le> j \<and> j < nat 0 + nat (nrows perms * nrows E)
                      then integers hg ! addr dperms ! j - 1 else integers hg ! addr dperms ! j)
              [0..<length (integers hg ! addr dperms)] = map (\<lambda>j. ?P ! j - 1) [0..<length ?P]"
      by (simp add: ihg dp len)
    then show ?thesis by (simp only: map_nth_minus)
  qed
  ultimately have "hi = hg\<lparr>integers := (integers hg)[addr dperms := map (\<lambda>v. v - 1) ?P]\<rparr>"
    using s8 by (simp add: for_range_def)
  then have "integers hi = integers h @ [map (\<lambda>v. v - 1) ?P]"
    by (simp add: ihg dp)
  with ret_success [OF s9]
  show "integers h1 = integers h @ [map (\<lambda>v. v - 1) (integers h ! addr perms)]" by simp
  from ret_success [OF s9] dp show "loc_iperm L = length (integers h)" by auto
qed

subsection \<open>Properties that the rounds of the loop preserve\<close>

lemma stable_int_content:
  "stable (\<lambda>h. a < length (integers h) \<and> integers h ! a = xs) UNIV {b. b \<noteq> a} UNIV (\<lambda>_. True)"
  unfolding stable_def
  by (intro conjI allI impI; (elim conjE)?) (simp_all add: nth_append)

lemma stable_shape:
  "stable (\<lambda>h. a < length (doubles h) \<and> length (doubles h ! a) = l) UNIV UNIV UNIV (\<lambda>_. True)"
  unfolding stable_def
  by (intro conjI allI impI; (elim conjE)?) (simp_all add: nth_append nth_list_update)

lemma stable_content:
  "stable (\<lambda>h. a < length (doubles h) \<and> doubles h ! a = xs) {b. b \<noteq> a} UNIV {(b, i). b \<noteq> a}
     (\<lambda>_. True)"
  unfolding stable_def
  by (intro conjI allI impI; (elim conjE)?) (simp_all add: nth_append)

lemma stable_cell_content:
  "stable (\<lambda>h. a < length (doubles h) \<and> doubles h ! a ! j = v) {b. b \<noteq> a} UNIV
     {(b, i). b \<noteq> a \<or> i \<noteq> j} (\<lambda>_. True)"
  unfolding stable_def
  by (intro conjI allI impI; (elim conjE)?) (auto simp: nth_append nth_list_update)

lemma keeps_rows:
  assumes st: "stable I W WI WC C"
    and "loc_rY L \<in> W" and "loc_qty L \<in> W" and "loc_resid L \<in> W" and "loc_fitted L \<in> W"
    and "\<And>x k y rsd. C (Dqrsl_call x k y rsd None RESID)"
    and "\<And>x k y rsd xb. C (Dqrsl_call x k y (Some rsd) (Some xb)
           (if loc_PARTIAL L \<noteq> 0 \<or> loc_FIRST L \<noteq> 0 then FIT + RESID else FIT))"
    and "\<And>a lw. a \<in> W \<Longrightarrow> C (Dgesdd_call a lw)"
    and "\<And>k. lo \<le> k \<Longrightarrow> k < hi \<Longrightarrow>
           addr (loc_ans L) \<in> W \<or> (addr (loc_ans L), nat k) \<in> WC"
    and "\<And>k. lo \<le> k \<Longrightarrow> k < hi \<Longrightarrow> loc_PARTIAL L \<noteq> 0 \<or> loc_FIRST L \<noteq> 0 \<Longrightarrow>
           addr (loc_ans L) \<in> W \<or> (addr (loc_ans L), nat (k + loc_nperm L)) \<in> WC"
  shows "keeps I (for_range lo hi (\<lambda>k _. getF_row ext L k) ()) (\<lambda>_. True)"
  by (intro keeps_for_range keeps_getF_row [OF st]) (use assms in auto)

section \<open>The sample runs\<close>

lemmas run_defs = do_getF_def getF_until_def getF_setup_def getF_row_def project_row_def
  permute_row_def partial_model_def design_model_def eigenvalues_def svdfirst_def getEV_def
  F77_dqrsl_def F77_dgesdd_def rd_target_def wr_target_def log_call_def
  allocMatrix_REALSXP_def duplicate_REALSXP_def duplicate_INTSXP_def R_alloc_double_def
  R_alloc_int_def rd_block_def wr_block_def wr_block_int_def rd_array_def rd_int_def
  wr_int_def rd_dbl_def wr_dbl_def for_range_def mbind_def ret_def fail_def FIT_def RESID_def
  sample_ext_def sample_mem_def sample_perms_def sample_E_def sample_QR_def
  sample_dqrsl_def sample_dgesdd_def

text \<open>Neither flag set: the table holds 8 and 8 in column 0; column 1 was never written.\<close>

lemma sample_run_plain:
  "do_getF (sample_ext s 0 0) sample_perms sample_E sample_QR None 0 0 sample_mem =
     (Inr \<lparr>addr = 3, nrows = 2, ncols = 2\<rparr>,
      \<lparr>doubles = [[3, 1], [1, 1], [1], [8, 8, - 1, - 1], [1, 3], [2, 2], [- 1, - 1], [1, 3]],
       integers = [[1, 2, 2, 1], [0, 1, 1, 0]],
       calls = [Dqrsl_call 1 1 (4, 0) (Some (6, 0)) (Some (5, 0)) 1,
                Dqrsl_call 1 1 (4, 0) (Some (6, 0)) (Some (5, 0)) 1]\<rparr>)"
  by (simp add: run_defs eval_nat_numeral)

text \<open>\<open>first = 1\<close>: the square of the first singular value in column 0, the residual
  sum of squares in column 1.\<close>

lemma sample_run_first:
  "do_getF (sample_ext s 0 0) sample_perms sample_E sample_QR None 1 0 sample_mem =
     (Inr \<lparr>addr = 3, nrows = 2, ncols = 2\<rparr>,
      \<lparr>doubles = [[3, 1], [1, 1], [1], [8, 8, 2, 2], [1, 3], [2, 2], [- 1, 1], [1, 3],
                  [0, 0], [sqrt 8], [1], [0, 0], [sqrt 8], [1]],
       integers = [[1, 2, 2, 1], [0, 1, 1, 0], [0, 0, 0, 0, 0, 0, 0, 0],
                   [0, 0, 0, 0, 0, 0, 0, 0]],
       calls = [Dqrsl_call 1 1 (4, 0) (Some (6, 0)) (Some (5, 0)) 11,
                Dgesdd_call 8 (- 1), Dgesdd_call 8 1,
                Dqrsl_call 1 1 (4, 0) (Some (6, 0)) (Some (5, 0)) 11,
                Dgesdd_call 11 (- 1), Dgesdd_call 11 1]\<rparr>)"
  by (simp add: run_defs eval_nat_numeral)

text \<open>\<open>isPartial = 1\<close>, with the same factorization for the partial model: nothing is
  left to fit.\<close>

lemma sample_run_partial:
  "do_getF (sample_ext s 0 0) sample_perms sample_E sample_QR (Some sample_QR) 0 1 sample_mem =
     (Inr \<lparr>addr = 3, nrows = 2, ncols = 2\<rparr>,
      \<lparr>doubles = [[3, 1], [1, 1], [1], [0, 0, 2, 2], [- 1, 1], [0, 0], [- 1, 1], [- 1, 1]],
       integers = [[1, 2, 2, 1], [0, 1, 1, 0]],
       calls = [Dqrsl_call 1 1 (4, 0) (Some (4, 0)) None 10,
                Dqrsl_call 1 1 (4, 0) (Some (6, 0)) (Some (5, 0)) 11,
                Dqrsl_call 1 1 (4, 0) (Some (4, 0)) None 10,
                Dqrsl_call 1 1 (4, 0) (Some (6, 0)) (Some (5, 0)) 11]\<rparr>)"
  by (simp add: run_defs eval_nat_numeral)

text \<open>The second round of the first sample run, stopped after the projections.\<close>

lemma sample_until_plain:
  "getF_until (sample_ext s 0 0) sample_perms sample_E sample_QR None 0 0 1 sample_mem =
     (Inr \<lparr>loc_nperm = 2, loc_nr = 2, loc_nc = 1, loc_FIRST = 0, loc_PARTIAL = 0,
            loc_ans = \<lparr>addr = 3, nrows = 2, ncols = 2\<rparr>, loc_rY = 4, loc_E = 0,
            loc_qr = 1, loc_qrank = 1, loc_qraux = 2, loc_Z = None, loc_fitted = 5,
            loc_resid = 6, loc_qty = 7, loc_iperm = 1\<rparr>,
      \<lparr>doubles = [[3, 1], [1, 1], [1], [8, - 1, - 1, - 1], [1, 3], [2, 2], [- 1, - 1], [1, 3]],
       integers = [[1, 2, 2, 1], [0, 1, 1, 0]],
       calls = [Dqrsl_call 1 1 (4, 0) (Some (6, 0)) (Some (5, 0)) 1,
                Dqrsl_call 1 1 (4, 0) (Some (6, 0)) (Some (5, 0)) 1]\<rparr>)"
  by (simp add: run_defs eval_nat_numeral)

section \<open>One round of the loop\<close>

lemma for_range_split:
  assumes run: "for_range lo hi body () h = (Inr (), h')" and "lo \<le> k" and "k < hi"
  obtains ha hb where "for_range lo k body () h = (Inr (), ha)"
    and "body k () ha = (Inr (), hb)"
    and "for_range (k + 1) hi body () hb = (Inr (), h')"
proof -
  have n: "nat (hi - lo) = nat (k - lo) + Suc (nat (hi - (k + 1)))"
    using assms(2,3) by simp
  have idx: "lo + int (nat (k - lo)) = k" using assms(2) by simp
  have "mbind (for_loop (nat (k - lo)) lo body ())
          (for_loop (Suc (nat (hi - (k + 1)))) k body) h = (Inr (), h')"
    using run unfolding for_range_def n for_loop_add idx .
  then obtain u ha where
    a: "for_loop (nat (k - lo)) lo body () h = (Inr u, ha)" and
    b: "for_loop (Suc (nat (hi - (k + 1)))) k body u ha = (Inr (), h')"
    by (rule mbind_success)
  from b obtain u' hb where
    c: "body k u ha = (Inr u', hb)" and
    d: "for_loop (nat (hi - (k + 1))) (k + 1) body u' hb = (Inr (), h')"
    unfolding for_loop.simps by (rule mbind_success)
  show thesis
  proof (rule that)
    show "for_range lo k body () h = (Inr (), ha)" using a by (simp add: for_range_def)
    show "body k () ha = (Inr (), hb)" using c by simp
    show "for_range (k + 1) hi body () hb = (Inr (), h')" using d by (simp add: for_range_def)
  qed
qed

lemma wr_dbl_success:
  assumes "wr_dbl a i v h = (Inr u, h')"
  shows "a < length (doubles h) \<and> 0 \<le> i \<and> nat i < length (doubles h ! a)
     \<and> h' = h\<lparr>doubles := (doubles h)[a := (doubles h ! a)[nat i := v]]\<rparr>"
  using assms by (auto simp: wr_dbl_def split: if_splits)

lemma prefix_nth:
  assumes "take n ys = xs" and "a < length xs"
  shows "ys ! a = xs ! a"
proof -
  from assms have "a < n" by auto
  then have "take n ys ! a = ys ! a" by simp
  with assms(1) show ?thesis by simp
qed

lemma svdfirst_success:
  assumes run: "svdfirst ext x nr nc h = (Inr v, h')"
    and "x < length (doubles h)" and "length (doubles h ! x) = nat (nr * nc)"
  shows "v = s_out (dgesdd_decomp ext (doubles h ! x) nr nc) 0"
proof -
  have "fst (svdfirst ext x nr nc h) = Inr v" using run by simp
  moreover have "take (nat (nr * nc)) (doubles h ! x) = doubles h ! x" using assms(3) by simp
  ultimately show ?thesis
    using svdfirst_result [of x h nr nc ext] assms(2,3)
    by (simp split: if_splits)
qed

text \<open>
  The last step of a round, started where the buffers have their full length: it stores
  in row \<open>k\<close> of column 0 the square of the first singular value of \<^verbatim>\<open>fitted\<close>, or
  the sum of the squares of its entries; and, if one of the flags is set, in row \<open>k\<close> of
  column 1 the sum of the squares of the entries of \<^verbatim>\<open>resid\<close>.
\<close>

lemma eigenvalues_entries:
  fixes h :: "('a::{comm_monoid_add,times}) mem"
  assumes run: "eigenvalues ext L k h = (Inr (), h')"
    and fit: "loc_fitted L < length (doubles h)"
      "length (doubles h ! loc_fitted L) = nat (loc_nr L * loc_nc L)"
    and res: "loc_resid L < length (doubles h)"
      "length (doubles h ! loc_resid L) = nat (loc_nr L * loc_nc L)"
    and ne: "addr (loc_ans L) \<noteq> loc_resid L"
    and k: "0 \<le> k" "0 < loc_nperm L"
  shows "doubles h' ! addr (loc_ans L) ! nat k =
      (if loc_FIRST L \<noteq> 0
       then s_out (dgesdd_decomp ext (doubles h ! loc_fitted L) (loc_nr L) (loc_nc L)) 0
          * s_out (dgesdd_decomp ext (doubles h ! loc_fitted L) (loc_nr L) (loc_nc L)) 0
       else (\<Sum>i<nat (loc_nr L * loc_nc L).
               doubles h ! loc_fitted L ! i * doubles h ! loc_fitted L ! i))"
    and "loc_PARTIAL L \<noteq> 0 \<or> loc_FIRST L \<noteq> 0 \<Longrightarrow>
      doubles h' ! addr (loc_ans L) ! nat (k + loc_nperm L) =
      (\<Sum>i<nat (loc_nr L * loc_nc L). doubles h ! loc_resid L ! i * doubles h ! loc_resid L ! i)"
    and "addr (loc_ans L) < length (doubles h')"
proof -
  let ?rans = "addr (loc_ans L)" and ?F = "loc_fitted L" and ?R = "loc_resid L"
  let ?len = "nat (loc_nr L * loc_nc L)"
  let ?v = "if loc_FIRST L \<noteq> 0
       then s_out (dgesdd_decomp ext (doubles h ! ?F) (loc_nr L) (loc_nc L)) 0
          * s_out (dgesdd_decomp ext (doubles h ! ?F) (loc_nr L) (loc_nc L)) 0
       else (\<Sum>i<?len. doubles h ! ?F ! i * doubles h ! ?F ! i)"
  let ?w = "\<Sum>i<?len. doubles h ! ?R ! i * doubles h ! ?R ! i"
  from run obtain u hb where
    first: "(if loc_FIRST L \<noteq> 0 then
              mbind (svdfirst ext ?F (loc_nr L) (loc_nc L)) (\<lambda>ev1. wr_dbl ?rans k (ev1 * ev1))
            else
              mbind (getEV ?F (loc_nr L) (loc_nc L) 0) (\<lambda>v. wr_dbl ?rans k v)) h
           = (Inr u, hb)" and
    second: "(if loc_PARTIAL L \<noteq> 0 \<or> loc_FIRST L \<noteq> 0 then
       mbind (getEV ?R (loc_nr L) (loc_nc L) 0) (\<lambda>v. wr_dbl ?rans (k + loc_nperm L) v)
     else ret ()) hb = (Inr (), h')"
    unfolding eigenvalues_def by (rule mbind_success)
  have A: "?rans < length (doubles hb) \<and> nat k < length (doubles hb ! ?rans)
      \<and> doubles hb ! ?rans ! nat k = ?v
      \<and> ?R < length (doubles hb) \<and> doubles hb ! ?R = doubles h ! ?R"
  proof (cases "loc_FIRST L \<noteq> 0")
    case True
    with first obtain ev1 ha where
      svd: "svdfirst ext ?F (loc_nr L) (loc_nc L) h = (Inr ev1, ha)" and
      wr: "wr_dbl ?rans k (ev1 * ev1) ha = (Inr u, hb)"
      by (auto elim: mbind_success)
    have ev1: "ev1 = s_out (dgesdd_decomp ext (doubles h ! ?F) (loc_nr L) (loc_nc L)) 0"
      by (rule svdfirst_success [OF svd fit])
    have pre: "take (length (doubles h)) (doubles ha) = doubles h"
      using frame_svdfirst [of h ext ?F "loc_nr L" "loc_nc L"] svd by simp
    then have le: "length (doubles h) \<le> length (doubles ha)" by (rule take_eq_imp_le)
    have R: "doubles ha ! ?R = doubles h ! ?R" using pre res(1) by (rule prefix_nth)
    note w = wr_dbl_success [OF wr]
    show ?thesis using w ev1 True R res(1) le ne by (simp add: nth_list_update)
  next
    case False
    with first obtain v ha where
      ev: "getEV ?F (loc_nr L) (loc_nc L) 0 h = (Inr v, ha)" and
      wr: "wr_dbl ?rans k v ha = (Inr u, hb)"
      by (auto elim: mbind_success)
    have "getEV ?F (loc_nr L) (loc_nc L) 0 h
        = (Inr (\<Sum>i<?len. doubles h ! ?F ! i * doubles h ! ?F ! i), h)"
      using fit by (intro getEV_all) simp_all
    then have "((Inr v :: error + 'a), ha) = (Inr (\<Sum>i<?len. doubles h ! ?F ! i * doubles h ! ?F ! i), h)"
      unfolding ev .
    then have v: "v = (\<Sum>i<?len. doubles h ! ?F ! i * doubles h ! ?F ! i)" and ha: "ha = h"
      by simp_all
    note w = wr_dbl_success [OF wr]
    show ?thesis using w v ha False res(1) ne by (simp add: nth_list_update)
  qed
  show "doubles h' ! ?rans ! nat k = ?v"
    and "loc_PARTIAL L \<noteq> 0 \<or> loc_FIRST L \<noteq> 0 \<Longrightarrow> doubles h' ! ?rans ! nat (k + loc_nperm L) = ?w"
    and "?rans < length (doubles h')"
  proof -
    have B: "doubles h' ! ?rans ! nat k = ?v \<and> ?rans < length (doubles h')
        \<and> (loc_PARTIAL L \<noteq> 0 \<or> loc_FIRST L \<noteq> 0 \<longrightarrow>
             doubles h' ! ?rans ! nat (k + loc_nperm L) = ?w)"
    proof (cases "loc_PARTIAL L \<noteq> 0 \<or> loc_FIRST L \<noteq> 0")
      case True
      with second obtain v2 hc where
        ev: "getEV ?R (loc_nr L) (loc_nc L) 0 hb = (Inr v2, hc)" and
        wr: "wr_dbl ?rans (k + loc_nperm L) v2 hc = (Inr (), h')"
        by (auto elim: mbind_success)
      have "getEV ?R (loc_nr L) (loc_nc L) 0 hb
          = (Inr (\<Sum>i<?len. doubles hb ! ?R ! i * doubles hb ! ?R ! i), hb)"
        using A res by (intro getEV_all) simp_all
      then have "((Inr v2 :: error + 'a), hc)
          = (Inr (\<Sum>i<?len. doubles hb ! ?R ! i * doubles hb ! ?R ! i), hb)"
        unfolding ev .
      then have "v2 = (\<Sum>i<?len. doubles hb ! ?R ! i * doubles hb ! ?R ! i)" and hc: "hc = hb"
        by simp_all
      with A have v2: "v2 = ?w" by simp
      note w = wr_dbl_success [OF wr]
      have "nat (k + loc_nperm L) \<noteq> nat k" using k by simp
      then show ?thesis using w v2 hc A True by (simp add: nth_list_update)
    next
      case False
      with second have "h' = hb" by (simp add: ret_def)
      with A False show ?thesis by simp
    qed
    from B show "doubles h' ! ?rans ! nat k = ?v" by simp
    from B show "?rans < length (doubles h')" by simp
    from B show "loc_PARTIAL L \<noteq> 0 \<or> loc_FIRST L \<noteq> 0 \<Longrightarrow>
        doubles h' ! ?rans ! nat (k + loc_nperm L) = ?w" by simp
  qed
qed

section \<open>The entries of the table\<close>

lemma nth_append5:
  "(xs @ [a, b, c, d, e]) ! length xs = a"
  "(xs @ [a, b, c, d, e]) ! (length xs + 1) = b"
  "(xs @ [a, b, c, d, e]) ! (length xs + 2) = c"
  "(xs @ [a, b, c, d, e]) ! (length xs + 3) = d"
  "(xs @ [a, b, c, d, e]) ! (length xs + 4) = e"
  by (simp_all add: nth_append eval_nat_numeral)

lemma shape_rows:
  assumes run: "for_range lo hi (\<lambda>k _. getF_row ext L k) () h = (r, h')"
    and "a < length (doubles h)" and "length (doubles h ! a) = l"
  shows "a < length (doubles h') \<and> length (doubles h' ! a) = l"
proof -
  have "keeps (\<lambda>h. a < length (doubles h) \<and> length (doubles h ! a) = l)
          (for_range lo hi (\<lambda>k _. getF_row ext L k) ()) (\<lambda>_. True)"
    by (rule keeps_rows [OF stable_shape]) simp_all
  from keepsD [OF this, of h] assms show ?thesis by simp
qed

lemma shape_project_row:
  assumes run: "project_row ext L k h = (r, h')"
    and "a < length (doubles h)" and "length (doubles h ! a) = l"
  shows "a < length (doubles h') \<and> length (doubles h' ! a) = l"
proof -
  have "keeps (\<lambda>h. a < length (doubles h) \<and> length (doubles h ! a) = l)
          (project_row ext L k) (\<lambda>_. True)"
    by (rule keeps_project_row [OF stable_shape]) simp_all
  from keepsD [OF this, of h] assms show ?thesis by simp
qed

lemma cell_rows:
  assumes run: "for_range lo hi (\<lambda>k _. getF_row ext L k) () h = (r, h')"
    and a: "addr (loc_ans L) < length (doubles h)"
    and v: "doubles h ! addr (loc_ans L) ! j = v"
    and ne: "loc_rY L \<noteq> addr (loc_ans L)" "loc_qty L \<noteq> addr (loc_ans L)"
      "loc_resid L \<noteq> addr (loc_ans L)" "loc_fitted L \<noteq> addr (loc_ans L)"
    and c0: "\<And>k. lo \<le> k \<Longrightarrow> k < hi \<Longrightarrow> nat k \<noteq> j"
    and c1: "\<And>k. lo \<le> k \<Longrightarrow> k < hi \<Longrightarrow> loc_PARTIAL L \<noteq> 0 \<or> loc_FIRST L \<noteq> 0 \<Longrightarrow>
               nat (k + loc_nperm L) \<noteq> j"
  shows "doubles h' ! addr (loc_ans L) ! j = v"
proof -
  have "keeps (\<lambda>h. addr (loc_ans L) < length (doubles h) \<and> doubles h ! addr (loc_ans L) ! j = v)
          (for_range lo hi (\<lambda>k _. getF_row ext L k) ()) (\<lambda>_. True)"
    by (rule keeps_rows [OF stable_cell_content]) (use ne c0 c1 in simp_all)
  from keepsD [OF this, of h] run a v show ?thesis by simp
qed

text \<open>
  The table returned by a successful run of \<^verbatim>\<open>do_getF\<close> on a response matrix that is
  allocated: what rows \<open>k\<close> of its two columns hold, in terms of the contents of the
  buffers \<^verbatim>\<open>fitted\<close> and \<^verbatim>\<open>resid\<close> after the calls of \<^verbatim>\<open>dqrsl\<close> of round \<open>k\<close>.
\<close>

lemma do_getF_entries:
  fixes h :: "('a::{comm_monoid_add,times}) mem"
  assumes run: "do_getF ext perms E QR QZ first isPartial h = (Inr ans, h')"
    and E: "addr E < length (doubles h)"
    and k: "0 \<le> k" "k < nrows perms"
  shows "doubles h' ! addr ans ! nat k =
      (if first \<noteq> 0
       then s_out (dgesdd_decomp ext (fitted_at ext perms E QR QZ first isPartial k h)
                     (nrows E) (ncols E)) 0
          * s_out (dgesdd_decomp ext (fitted_at ext perms E QR QZ first isPartial k h)
                     (nrows E) (ncols E)) 0
       else (\<Sum>i<nat (nrows E * ncols E).
               fitted_at ext perms E QR QZ first isPartial k h ! i
             * fitted_at ext perms E QR QZ first isPartial k h ! i))"
    and "isPartial \<noteq> 0 \<or> first \<noteq> 0 \<Longrightarrow>
      doubles h' ! addr ans ! nat (k + nrows perms) =
      (\<Sum>i<nat (nrows E * ncols E).
          resid_at ext perms E QR QZ first isPartial k h ! i
        * resid_at ext perms E QR QZ first isPartial k h ! i)"
    and "isPartial = 0 \<Longrightarrow> first = 0 \<Longrightarrow>
      doubles h' ! addr ans ! nat (k + nrows perms) =
      fresh_double ext (addr ans) (nat (k + nrows perms))"
proof -
  let ?rows = "\<lambda>k (_::unit). getF_row ext L k"
  from run obtain L h1 where
    init: "getF_setup ext perms E QR QZ first isPartial h = (Inr L, h1)" and
    rest: "mbind (for_range 0 (loc_nperm L) (\<lambda>k _. getF_row ext L k) ())
             (\<lambda>_. ret (loc_ans L)) h1 = (Inr ans, h')"
    unfolding do_getF_def by (rule mbind_success)
  from rest obtain u h2 where
    loop0: "for_range 0 (loc_nperm L) (\<lambda>k _. getF_row ext L k) () h1 = (Inr u, h2)" and
    fin: "ret (loc_ans L) h2 = (Inr ans, h')"
    by (rule mbind_success)
  from loop0 have loop: "for_range 0 (loc_nperm L) (\<lambda>k _. getF_row ext L k) () h1 = (Inr (), h2)"
    by simp
  from fin have ans: "ans = loc_ans L" and h': "h' = h2" by (simp_all add: ret_def)
  note S = getF_setup_success [OF init E]
  define n0 where "n0 = length (doubles h)"
  have L: "addr (loc_ans L) = n0" "loc_rY L = n0 + 1" "loc_fitted L = n0 + 2"
    "loc_resid L = n0 + 3" "loc_qty L = n0 + 4" "loc_nperm L = nrows perms"
    "loc_nr L = nrows E" "loc_nc L = ncols E" "loc_FIRST L = first" "loc_PARTIAL L = isPartial"
    unfolding n0_def by (simp_all add: S(1))
  note D = S(2) [folded n0_def]
  have len1: "length (doubles h1) = n0 + 5" by (simp add: D n0_def)
  have ans1: "doubles h1 ! n0 = map (fresh_double ext n0) [0..<nat (nrows perms * 2)]"
    unfolding D n0_def by (rule nth_append5)
  have fit1: "length (doubles h1 ! (n0 + 2)) = nat (nrows E * ncols E)"
    unfolding D n0_def nth_append5 by simp
  have res1: "length (doubles h1 ! (n0 + 3)) = nat (nrows E * ncols E)"
    unfolding D n0_def nth_append5 by simp
  have kn: "k < loc_nperm L" using k L by simp
  from loop k(1) kn obtain ha hb where
    pre: "for_range 0 k (\<lambda>k _. getF_row ext L k) () h1 = (Inr (), ha)" and
    row: "getF_row ext L k ha = (Inr (), hb)" and
    post: "for_range (k + 1) (loc_nperm L) (\<lambda>k _. getF_row ext L k) () hb = (Inr (), h2)"
    by (rule for_range_split)
  from row obtain u' hp where
    proj0: "project_row ext L k ha = (Inr u', hp)" and
    eig: "eigenvalues ext L k hp = (Inr (), hb)"
    unfolding getF_row_def by (rule mbind_success)
  from proj0 have proj: "project_row ext L k ha = (Inr (), hp)" by simp
  have until: "getF_until ext perms E QR QZ first isPartial k h = (Inr L, hp)"
    unfolding getF_until_def
    apply (rule mbind_Inr, rule init)
    apply (rule mbind_Inr, rule pre)
    apply (rule mbind_Inr, rule proj)
    apply (simp add: ret_def)
    done
  have fitted: "fitted_at ext perms E QR QZ first isPartial k h = doubles hp ! (n0 + 2)"
    by (simp add: fitted_at_def until L)
  have resid: "resid_at ext perms E QR QZ first isPartial k h = doubles hp ! (n0 + 3)"
    by (simp add: resid_at_def until L)
  have fita: "n0 + 2 < length (doubles ha) \<and> length (doubles ha ! (n0 + 2)) = nat (nrows E * ncols E)"
    by (rule shape_rows [OF pre _ fit1]) (simp add: len1)
  have resa: "n0 + 3 < length (doubles ha) \<and> length (doubles ha ! (n0 + 3)) = nat (nrows E * ncols E)"
    by (rule shape_rows [OF pre _ res1]) (simp add: len1)
  have fitp: "n0 + 2 < length (doubles hp) \<and> length (doubles hp ! (n0 + 2)) = nat (nrows E * ncols E)"
    using fita by (intro shape_project_row [OF proj]) simp_all
  have resp: "n0 + 3 < length (doubles hp) \<and> length (doubles hp ! (n0 + 3)) = nat (nrows E * ncols E)"
    using resa by (intro shape_project_row [OF proj]) simp_all
  have np: "0 < loc_nperm L" using k L by simp
  have E1: "loc_fitted L < length (doubles hp)"
    "length (doubles hp ! loc_fitted L) = nat (loc_nr L * loc_nc L)"
    "loc_resid L < length (doubles hp)"
    "length (doubles hp ! loc_resid L) = nat (loc_nr L * loc_nc L)"
    "addr (loc_ans L) \<noteq> loc_resid L"
    using fitp resp by (simp_all add: L)
  note V = eigenvalues_entries [OF eig E1 k(1) np]
  have ne: "loc_rY L \<noteq> addr (loc_ans L)" "loc_qty L \<noteq> addr (loc_ans L)"
    "loc_resid L \<noteq> addr (loc_ans L)" "loc_fitted L \<noteq> addr (loc_ans L)"
    by (simp_all add: L)
  have "doubles h2 ! addr (loc_ans L) ! nat k = doubles hb ! addr (loc_ans L) ! nat k"
    by (rule cell_rows [OF post V(3) refl ne]) (use k np in simp_all)
  then show "doubles h' ! addr ans ! nat k =
      (if first \<noteq> 0
       then s_out (dgesdd_decomp ext (fitted_at ext perms E QR QZ first isPartial k h)
                     (nrows E) (ncols E)) 0
          * s_out (dgesdd_decomp ext (fitted_at ext perms E QR QZ first isPartial k h)
                     (nrows E) (ncols E)) 0
       else (\<Sum>i<nat (nrows E * ncols E).
               fitted_at ext perms E QR QZ first isPartial k h ! i
             * fitted_at ext perms E QR QZ first isPartial k h ! i))"
    unfolding V(1) fitted ans h' by (simp add: L)
  show "doubles h' ! addr ans ! nat (k + nrows perms) =
      (\<Sum>i<nat (nrows E * ncols E).
          resid_at ext perms E QR QZ first isPartial k h ! i
        * resid_at ext perms E QR QZ first isPartial k h ! i)"
    if flags: "isPartial \<noteq> 0 \<or> first \<noteq> 0"
  proof -
    have fl: "loc_PARTIAL L \<noteq> 0 \<or> loc_FIRST L \<noteq> 0" using flags by (simp add: L)
    have "doubles h2 ! addr (loc_ans L) ! nat (k + loc_nperm L)
        = doubles hb ! addr (loc_ans L) ! nat (k + loc_nperm L)"
      by (rule cell_rows [OF post V(3) refl ne]) (use k np in simp_all)
    then show ?thesis unfolding V(2) [OF fl] resid ans h' by (simp add: L)
  qed
  show "doubles h' ! addr ans ! nat (k + nrows perms) =
      fresh_double ext (addr ans) (nat (k + nrows perms))"
    if off: "isPartial = 0" "first = 0"
  proof -
    have idx: "nat (k + nrows perms) < nat (nrows perms * 2)" using k by simp
    have a1: "addr (loc_ans L) < length (doubles h1)" by (simp add: L len1)
    have v1: "doubles h1 ! addr (loc_ans L) ! nat (k + loc_nperm L)
        = fresh_double ext n0 (nat (k + nrows perms))"
      using idx by (simp add: L ans1)
    have "doubles h2 ! addr (loc_ans L) ! nat (k + loc_nperm L)
        = fresh_double ext n0 (nat (k + nrows perms))"
      by (rule cell_rows [OF loop a1 v1 ne]) (use k np off in \<open>simp_all add: L\<close>)
    then show ?thesis unfolding ans h' by (simp add: L)
  qed
qed

section \<open>The buffers in the sample runs\<close>

text \<open>What \<^verbatim>\<open>fitted\<close> and \<^verbatim>\<open>resid\<close> hold in the second round of the sample runs.\<close>

lemma sample_fitted_plain:
  "fitted_at (sample_ext s 0 0) sample_perms sample_E sample_QR None 0 0 1 sample_mem = [2, 2]"
  by (simp add: fitted_at_def run_defs eval_nat_numeral)

lemma sample_fitted_first:
  "fitted_at (sample_ext s 0 0) sample_perms sample_E sample_QR None 1 0 1 sample_mem = [2, 2]"
  by (simp add: fitted_at_def run_defs eval_nat_numeral)

lemma sample_resid_first:
  "resid_at (sample_ext s 0 0) sample_perms sample_E sample_QR None 1 0 1 sample_mem = [- 1, 1]"
  by (simp add: resid_at_def run_defs eval_nat_numeral)

lemma sample_resid_partial:
  "resid_at (sample_ext s 0 0) sample_perms sample_E sample_QR (Some sample_QR) 0 1 1 sample_mem
     = [- 1, 1]"
  by (simp add: resid_at_def run_defs eval_nat_numeral)

lemma sample_first_singular_value:
  "s_out (dgesdd_decomp (sample_ext s 0 0) [2, 2] 2 1) 0 = sqrt 8"
  by (simp add: dgesdd_decomp_def dgesdd_query_def sample_ext_def sample_dgesdd_def
      eval_nat_numeral)

lemma sample_shapes:
  "addr sample_E < length (doubles sample_mem)"
  "nrows sample_perms = 2" "nrows sample_E = 2" "ncols sample_E = 1"
  by (simp_all add: sample_E_def sample_perms_def sample_mem_def)

lemma sample_fresh_double: "fresh_double (sample_ext s t u) a i = - 1"
  by (simp add: sample_ext_def)

section \<open>The claims about what is left unchanged\<close>

text \<open>
  Claim C5.  \<^verbatim>\<open>svdfirst\<close> does not change the matrix it is given.  Whether it returns
  or stops with an error, every array of doubles and of integers that existed when it was
  called, the one behind \<open>x\<close> among them, is afterwards what it was before; and every
  array that it hands to \<^verbatim>\<open>dgesdd\<close>, which destroys its input, is one that
  \<^verbatim>\<open>svdfirst\<close> allocated itself.
\<close>

theorem svdfirst_leaves_input_unchanged:
  "take (length (doubles h)) (doubles (snd (svdfirst ext x nr nc h))) = doubles h
   \<and> take (length (integers h)) (integers (snd (svdfirst ext x nr nc h))) = integers h
   \<and> list_all ((\<le>) (length (doubles h)))
        (dgesdd_arrays (drop (length (calls h)) (calls (snd (svdfirst ext x nr nc h)))))"
  using frame_svdfirst [of h ext x nr nc] svdfirst_private_copy [of h ext x nr nc] by simp

text \<open>
  Claim C9.  Over the whole of \<^verbatim>\<open>do_getF\<close>, whether it returns or stops with an
  error, every array that existed at the call keeps its contents: the response matrix
  \<open>E\<close>, the matrix and the auxiliary vector of both factorizations, and the permutation
  matrix too.  What changes are arrays that \<^verbatim>\<open>do_getF\<close> allocates: the copy \<open>Y\<close>, the
  buffers \<^verbatim>\<open>fitted\<close>, \<^verbatim>\<open>resid\<close> and \<^verbatim>\<open>qty\<close>, the result \<^verbatim>\<open>ans\<close>, and what
  \<^verbatim>\<open>svdfirst\<close> allocates.  The same holds at every round of the loop, where the run is
  stopped after the calls of \<^verbatim>\<open>dqrsl\<close>.
\<close>

theorem do_getF_leaves_inputs_unchanged:
  "take (length (doubles h)) (doubles (snd (do_getF ext perms E QR QZ first isPartial h))) = doubles h
   \<and> take (length (integers h)) (integers (snd (do_getF ext perms E QR QZ first isPartial h)))
       = integers h
   \<and> take (length (doubles h)) (doubles (snd (getF_until ext perms E QR QZ first isPartial k h)))
       = doubles h
   \<and> take (length (integers h)) (integers (snd (getF_until ext perms E QR QZ first isPartial k h)))
       = integers h"
  using frame_do_getF [of h ext perms E QR QZ first isPartial]
    frame_getF_until [of h ext perms E QR QZ first isPartial k] by simp

section \<open>The claim about the mode of the design projection\<close>

text \<open>
  Claim C1 says that with neither flag set the design projection asks for residuals
  only.  It asks for fitted values only: the mode is \<^verbatim>\<open>FIT\<close>, not \<^verbatim>\<open>RESID\<close>.  In
  the sample run with neither flag set there are two calls on the design factorization,
  one for each permutation, both with mode \<^verbatim>\<open>FIT\<close>.
\<close>

theorem design_mode_counterexample:
  "design_jobs (calls (snd (do_getF (sample_ext 0 0 0) sample_perms sample_E sample_QR None 0 0
      sample_mem))) = [FIT, FIT]
   \<and> FIT \<noteq> RESID"
  by (simp add: sample_run_plain FIT_def RESID_def)

text \<open>
  Claim C1, amended.  For every permutation row the design projection is applied once
  per column, and it requests fitted values only (\<^verbatim>\<open>FIT\<close>) when neither
  \<open>isPartial\<close> nor \<open>first\<close> is set, and fitted values and residuals
  (\<^verbatim>\<open>FIT + RESID\<close>) otherwise.  No call on the design factorization has another mode,
  however the run ends; a run that returns has made \<open>nperm\<close> times \<open>nc\<close> of them.
\<close>

theorem design_mode_requested:
  "set (design_jobs (drop (length (calls h))
      (calls (snd (do_getF ext perms E QR QZ first isPartial h)))))
     \<subseteq> {if isPartial \<noteq> 0 \<or> first \<noteq> 0 then FIT + RESID else FIT}
   \<and> (do_getF ext perms E QR QZ first isPartial h = (Inr ans, h') \<longrightarrow>
        design_jobs (drop (length (calls h)) (calls h'))
          = replicate (nat (nrows perms) * nat (ncols E))
              (if isPartial \<noteq> 0 \<or> first \<noteq> 0 then FIT + RESID else FIT))"
proof (intro conjI impI)
  show "set (design_jobs (drop (length (calls h))
      (calls (snd (do_getF ext perms E QR QZ first isPartial h)))))
     \<subseteq> {if isPartial \<noteq> 0 \<or> first \<noteq> 0 then FIT + RESID else FIT}"
    by (rule do_getF_design_jobs_any)
next
  let ?J = "if isPartial \<noteq> 0 \<or> first \<noteq> 0 then FIT + RESID else FIT"
  assume run: "do_getF ext perms E QR QZ first isPartial h = (Inr ans, h')"
  have "design_count (calls h) ?J 0 h" by (simp add: design_count_def)
  from tripleD_Inr [OF do_getF_counts this run]
  show "design_jobs (drop (length (calls h)) (calls h'))
          = replicate (nat (nrows perms) * nat (ncols E)) ?J"
    by (simp add: design_count_def)
qed

theorem design_mode_requested_witness:
  "do_getF (sample_ext 0 0 0) sample_perms sample_E sample_QR None 1 0 sample_mem =
     (Inr \<lparr>addr = 3, nrows = 2, ncols = 2\<rparr>,
      \<lparr>doubles = [[3, 1], [1, 1], [1], [8, 8, 2, 2], [1, 3], [2, 2], [- 1, 1], [1, 3],
                  [0, 0], [sqrt 8], [1], [0, 0], [sqrt 8], [1]],
       integers = [[1, 2, 2, 1], [0, 1, 1, 0], [0, 0, 0, 0, 0, 0, 0, 0],
                   [0, 0, 0, 0, 0, 0, 0, 0]],
       calls = [Dqrsl_call 1 1 (4, 0) (Some (6, 0)) (Some (5, 0)) 11,
                Dgesdd_call 8 (- 1), Dgesdd_call 8 1,
                Dqrsl_call 1 1 (4, 0) (Some (6, 0)) (Some (5, 0)) 11,
                Dgesdd_call 11 (- 1), Dgesdd_call 11 1]\<rparr>)
   \<and> design_jobs [Dqrsl_call 1 1 (4, 0) (Some (6, 0)) (Some (5, 0)) 11,
                Dgesdd_call 8 (- 1), Dgesdd_call 8 1,
                Dqrsl_call 1 1 (4, 0) (Some (6, 0)) (Some (5, 0)) 11,
                Dgesdd_call 11 (- 1), Dgesdd_call 11 1]
       = replicate (nat (nrows sample_perms) * nat (ncols sample_E)) (FIT + RESID)"
  using design_mode_requested [of sample_mem "sample_ext 0 0 0" sample_perms sample_E sample_QR
      None 1 0 "\<lparr>addr = 3, nrows = 2, ncols = 2\<rparr>"
      "\<lparr>doubles = [[3, 1], [1, 1], [1], [8, 8, 2, 2], [1, 3], [2, 2], [- 1, 1], [1, 3],
                  [0, 0], [sqrt 8], [1], [0, 0], [sqrt 8], [1]],
       integers = [[1, 2, 2, 1], [0, 1, 1, 0], [0, 0, 0, 0, 0, 0, 0, 0],
                   [0, 0, 0, 0, 0, 0, 0, 0]],
       calls = [Dqrsl_call 1 1 (4, 0) (Some (6, 0)) (Some (5, 0)) 11,
                Dgesdd_call 8 (- 1), Dgesdd_call 8 1,
                Dqrsl_call 1 1 (4, 0) (Some (6, 0)) (Some (5, 0)) 11,
                Dgesdd_call 11 (- 1), Dgesdd_call 11 1]\<rparr>"]
    sample_run_first [of 0]
  by (simp add: sample_mem_def)

section \<open>The claim about a failing \<^verbatim>\<open>dgesdd\<close>\<close>

text \<open>
  Claim C4.  \<^verbatim>\<open>svdfirst\<close> learns of a failure of \<^verbatim>\<open>dgesdd\<close>, whatever its cause,
  from the status the routine reports.  Let \<open>x\<close> hold at least \<open>nr * nc\<close> entries.  If
  the query for the size of the work array reports a non-zero status, \<^verbatim>\<open>svdfirst\<close>
  stops with the error that carries this status.  If the query succeeds, asks for a work
  array of a size that can be allocated, and the decomposition reports a non-zero status,
  \<^verbatim>\<open>svdfirst\<close> stops with the error of the second position that carries that status.
  Whenever \<^verbatim>\<open>svdfirst\<close> returns a value, both calls have reported status 0 and the
  value is the first singular value that the decomposition has stored.
\<close>

theorem svdfirst_status_is_fatal:
  assumes "x < length (doubles h)" and "nat (nr * nc) \<le> length (doubles h ! x)"
    and "0 \<le> nr" and "0 \<le> nc"
  shows "(dg_info (dgesdd_query ext (take (nat (nr * nc)) (doubles h ! x)) nr nc) \<noteq> 0 \<longrightarrow>
            fst (svdfirst ext x nr nc h) = Inl (Lapack_dgesdd
              (dg_info (dgesdd_query ext (take (nat (nr * nc)) (doubles h ! x)) nr nc))))
       \<and> (dg_info (dgesdd_query ext (take (nat (nr * nc)) (doubles h ! x)) nr nc) = 0
          \<and> 0 \<le> double_to_int ext
               (work_out (dgesdd_query ext (take (nat (nr * nc)) (doubles h ! x)) nr nc) 0)
          \<and> dg_info (dgesdd_decomp ext (take (nat (nr * nc)) (doubles h ! x)) nr nc) \<noteq> 0 \<longrightarrow>
            fst (svdfirst ext x nr nc h) = Inl (Lapack_dgesdd_pos2
              (dg_info (dgesdd_decomp ext (take (nat (nr * nc)) (doubles h ! x)) nr nc))))
       \<and> (\<forall>v. fst (svdfirst ext x nr nc h) = Inr v \<longrightarrow>
            dg_info (dgesdd_query ext (take (nat (nr * nc)) (doubles h ! x)) nr nc) = 0
          \<and> dg_info (dgesdd_decomp ext (take (nat (nr * nc)) (doubles h ! x)) nr nc) = 0
          \<and> v = s_out (dgesdd_decomp ext (take (nat (nr * nc)) (doubles h ! x)) nr nc) 0)"
proof -
  have "0 \<le> nr * nc" using assms(3,4) by simp
  then have "\<not> nr * nc < 0" by simp
  moreover have "\<not> (if nr < nc then nr else nc) < 0" using assms(3,4) by simp
  ultimately have "\<not> nr * nc < 0" and "\<not> (if nr < nc then nr else nc) < 0" by blast+
  then show ?thesis
    unfolding svdfirst_result [OF assms(1,2)] by (simp split: if_splits)
qed

theorem svdfirst_status_is_fatal_witness:
  "fst (svdfirst (sample_ext 0 5 0) 0 2 1 sample_mem) = Inl (Lapack_dgesdd 5)
   \<and> fst (svdfirst (sample_ext 0 0 7) 0 2 1 sample_mem) = Inl (Lapack_dgesdd_pos2 7)
   \<and> fst (svdfirst (sample_ext 0 0 0) 0 2 1 sample_mem) = Inr (sqrt 10)"
  using svdfirst_status_is_fatal [of 0 sample_mem 2 1 "sample_ext 0 5 0"]
    svdfirst_status_is_fatal [of 0 sample_mem 2 1 "sample_ext 0 0 7"]
    svdfirst_status_is_fatal [of 0 sample_mem 2 1 "sample_ext 0 0 0"]
    svdfirst_result [of 0 sample_mem 2 1 "sample_ext 0 0 0"]
  by (simp add: sample_mem_def sample_ext_def sample_dgesdd_def dgesdd_query_def
      dgesdd_decomp_def eval_nat_numeral)

section \<open>The claim about the permutation matrix\<close>

text \<open>
  Claim C7.  \<^verbatim>\<open>do_getF\<close> never changes the permutation matrix of its caller: the
  arrays of integers that exist at the call are the same afterwards, however the run
  ends.  The indices are turned to zero base in the copy \<^verbatim>\<open>dperms\<close>, the first array
  of integers that \<^verbatim>\<open>do_getF\<close> allocates, in one pass before the loop over the whole
  table of \<open>nperm\<close> times \<open>nr\<close> entries: in every round of the loop, after the
  projections, the table that the loop reads holds each index of the caller less one, and
  so it does when \<^verbatim>\<open>do_getF\<close> returns.
\<close>

theorem permutations_converted_on_a_copy:
  "take (length (integers h)) (integers (snd (do_getF ext perms E QR QZ first isPartial h)))
     = integers h
   \<and> (do_getF ext perms E QR QZ first isPartial h = (Inr ans, h')
        \<and> length (integers h ! addr perms) = nat (nrows perms * nrows E) \<longrightarrow>
      integers h' ! length (integers h) = map (\<lambda>v. v - 1) (integers h ! addr perms))
   \<and> (getF_until ext perms E QR QZ first isPartial k h = (Inr L, hk)
        \<and> length (integers h ! addr perms) = nat (nrows perms * nrows E) \<longrightarrow>
      loc_iperm L = length (integers h)
      \<and> integers hk ! loc_iperm L = map (\<lambda>v. v - 1) (integers h ! addr perms))"
proof (intro conjI impI)
  show "take (length (integers h)) (integers (snd (do_getF ext perms E QR QZ first isPartial h)))
     = integers h"
    using frame_do_getF [of h ext perms E QR QZ first isPartial] by simp
next
  let ?I = "\<lambda>h'. length (integers h) < length (integers h')
      \<and> integers h' ! length (integers h) = map (\<lambda>v. v - 1) (integers h ! addr perms)"
  assume a: "do_getF ext perms E QR QZ first isPartial h = (Inr ans, h')
      \<and> length (integers h ! addr perms) = nat (nrows perms * nrows E)"
  then obtain L0 h1 h2 where
    init: "getF_setup ext perms E QR QZ first isPartial h = (Inr L0, h1)" and
    loop: "for_range 0 (loc_nperm L0) (\<lambda>k _. getF_row ext L0 k) () h1 = (Inr (), h2)" and
    fin: "ret (loc_ans L0) h2 = (Inr ans, h')"
    unfolding do_getF_def by (elim conjE mbind_success) auto
  have "?I h1" using getF_setup_perms(1) [OF init] a by simp
  moreover have "keeps ?I (for_range 0 (loc_nperm L0) (\<lambda>k _. getF_row ext L0 k) ()) (\<lambda>_. True)"
    by (rule keeps_rows [OF stable_int_content]) simp_all
  ultimately have "?I (snd (for_range 0 (loc_nperm L0) (\<lambda>k _. getF_row ext L0 k) () h1))"
    by (rule keepsD [rotated])
  with loop fin show "integers h' ! length (integers h)
      = map (\<lambda>v. v - 1) (integers h ! addr perms)"
    by (simp add: ret_def)
next
  let ?I = "\<lambda>h'. length (integers h) < length (integers h')
      \<and> integers h' ! length (integers h) = map (\<lambda>v. v - 1) (integers h ! addr perms)"
  assume a: "getF_until ext perms E QR QZ first isPartial k h = (Inr L, hk)
      \<and> length (integers h ! addr perms) = nat (nrows perms * nrows E)"
  then obtain L0 h1 h2 h3 where
    init: "getF_setup ext perms E QR QZ first isPartial h = (Inr L0, h1)" and
    loop: "for_range 0 k (\<lambda>k _. getF_row ext L0 k) () h1 = (Inr (), h2)" and
    proj: "project_row ext L0 k h2 = (Inr (), h3)" and
    fin: "ret L0 h3 = (Inr L, hk)"
    unfolding getF_until_def by (elim conjE mbind_success) auto
  have L: "L = L0" and hk: "hk = h3" using fin by (simp_all add: ret_def)
  have "?I h1" using getF_setup_perms(1) [OF init] a by simp
  moreover have "keeps ?I (for_range 0 k (\<lambda>k _. getF_row ext L0 k) ()) (\<lambda>_. True)"
    by (rule keeps_rows [OF stable_int_content]) simp_all
  ultimately have "?I (snd (for_range 0 k (\<lambda>k _. getF_row ext L0 k) () h1))"
    by (rule keepsD [rotated])
  then have "?I h2" using loop by simp
  moreover have "keeps ?I (project_row ext L0 k) (\<lambda>_. True)"
    by (rule keeps_project_row [OF stable_int_content]) simp_all
  ultimately have "?I (snd (project_row ext L0 k h2))"
    by (rule keepsD [rotated])
  then have I3: "?I hk" using proj hk by simp
  show "loc_iperm L = length (integers h)"
    using getF_setup_perms(2) [OF init] a L by simp
  with I3 show "integers hk ! loc_iperm L = map (\<lambda>v. v - 1) (integers h ! addr perms)"
    by simp
qed

theorem permutations_converted_on_a_copy_witness:
  "do_getF (sample_ext 0 0 0) sample_perms sample_E sample_QR None 0 0 sample_mem =
     (Inr \<lparr>addr = 3, nrows = 2, ncols = 2\<rparr>,
      \<lparr>doubles = [[3, 1], [1, 1], [1], [8, 8, - 1, - 1], [1, 3], [2, 2], [- 1, - 1], [1, 3]],
       integers = [[1, 2, 2, 1], [0, 1, 1, 0]],
       calls = [Dqrsl_call 1 1 (4, 0) (Some (6, 0)) (Some (5, 0)) 1,
                Dqrsl_call 1 1 (4, 0) (Some (6, 0)) (Some (5, 0)) 1]\<rparr>)
   \<and> length (integers sample_mem ! addr sample_perms) = nat (nrows sample_perms * nrows sample_E)
   \<and> integers sample_mem ! addr sample_perms = [1, 2, 2, 1]
   \<and> [[1, 2, 2, 1], [0, 1, 1, 0]] ! length (integers sample_mem) = map (\<lambda>v. v - 1) [1, 2, 2, 1 :: int]
   \<and> take (length (integers sample_mem))
        (integers (snd (do_getF (sample_ext 0 0 0) sample_perms sample_E sample_QR None 0 0
           sample_mem))) = [[1, 2, 2, 1]]"
  using permutations_converted_on_a_copy [of sample_mem "sample_ext 0 0 0" sample_perms sample_E
      sample_QR None 0 0 "\<lparr>addr = 3, nrows = 2, ncols = 2\<rparr>"
      "\<lparr>doubles = [[3, 1], [1, 1], [1], [8, 8, - 1, - 1], [1, 3], [2, 2], [- 1, - 1], [1, 3]],
       integers = [[1, 2, 2, 1], [0, 1, 1, 0]],
       calls = [Dqrsl_call 1 1 (4, 0) (Some (6, 0)) (Some (5, 0)) 1,
                Dqrsl_call 1 1 (4, 0) (Some (6, 0)) (Some (5, 0)) 1]\<rparr>"
      1
      "\<lparr>loc_nperm = 2, loc_nr = 2, loc_nc = 1, loc_FIRST = 0, loc_PARTIAL = 0,
            loc_ans = \<lparr>addr = 3, nrows = 2, ncols = 2\<rparr>, loc_rY = 4, loc_E = 0,
            loc_qr = 1, loc_qrank = 1, loc_qraux = 2, loc_Z = None, loc_fitted = 5,
            loc_resid = 6, loc_qty = 7, loc_iperm = 1\<rparr>"
      "\<lparr>doubles = [[3, 1], [1, 1], [1], [8, - 1, - 1, - 1], [1, 3], [2, 2], [- 1, - 1], [1, 3]],
       integers = [[1, 2, 2, 1], [0, 1, 1, 0]],
       calls = [Dqrsl_call 1 1 (4, 0) (Some (6, 0)) (Some (5, 0)) 1,
                Dqrsl_call 1 1 (4, 0) (Some (6, 0)) (Some (5, 0)) 1]\<rparr>"]
    sample_run_plain [of 0] sample_until_plain [of 0]
  by (simp add: sample_mem_def sample_perms_def sample_E_def)

section \<open>The claim about the explained variance\<close>

text \<open>
  Claim C8.  Let \<^verbatim>\<open>do_getF\<close> return the table \<open>ans\<close> for a response matrix that is
  allocated, and let \<open>k\<close> be a row of the permutation matrix.  Row \<open>k\<close> of column 0 of the
  table, the entry \<open>k\<close> of the array, depends on the buffer \<^verbatim>\<open>fitted\<close> as round \<open>k\<close>
  of the loop has it after the projections.  When \<open>first\<close> is set it is the square of the
  first singular value that \<^verbatim>\<open>dgesdd\<close> stores when \<^verbatim>\<open>svdfirst\<close> hands it the
  \<open>nr\<close> by \<open>nc\<close> entries of that buffer, which is the largest one as LAPACK orders them.
  Otherwise it is the sum of the squares of all \<open>nr * nc\<close> entries of that buffer, never
  of its diagonal alone.
\<close>

theorem explained_variance_entry:
  fixes h :: "('a::{comm_monoid_add,times}) mem"
  assumes "do_getF ext perms E QR QZ first isPartial h = (Inr ans, h')"
    and "addr E < length (doubles h)"
    and "0 \<le> k" and "k < nrows perms"
  shows "doubles h' ! addr ans ! nat k =
      (if first \<noteq> 0
       then s_out (dgesdd_decomp ext (fitted_at ext perms E QR QZ first isPartial k h)
                     (nrows E) (ncols E)) 0
          * s_out (dgesdd_decomp ext (fitted_at ext perms E QR QZ first isPartial k h)
                     (nrows E) (ncols E)) 0
       else (\<Sum>i<nat (nrows E * ncols E).
               fitted_at ext perms E QR QZ first isPartial k h ! i
             * fitted_at ext perms E QR QZ first isPartial k h ! i))"
  using assms by (rule do_getF_entries(1))

theorem explained_variance_entry_witness:
  "fst (do_getF (sample_ext 0 0 0) sample_perms sample_E sample_QR None 1 0 sample_mem)
     = Inr \<lparr>addr = 3, nrows = 2, ncols = 2\<rparr>
   \<and> addr sample_E < length (doubles sample_mem) \<and> (1 :: int) < nrows sample_perms
   \<and> fitted_at (sample_ext 0 0 0) sample_perms sample_E sample_QR None 1 0 1 sample_mem = [2, 2]
   \<and> s_out (dgesdd_decomp (sample_ext 0 0 0) [2, 2] (nrows sample_E) (ncols sample_E)) 0 = sqrt 8
   \<and> doubles (snd (do_getF (sample_ext 0 0 0) sample_perms sample_E sample_QR None 1 0
        sample_mem)) ! 3 ! nat 1 = sqrt 8 * sqrt 8
   \<and> fst (do_getF (sample_ext 0 0 0) sample_perms sample_E sample_QR None 0 0 sample_mem)
     = Inr \<lparr>addr = 3, nrows = 2, ncols = 2\<rparr>
   \<and> fitted_at (sample_ext 0 0 0) sample_perms sample_E sample_QR None 0 0 1 sample_mem = [2, 2]
   \<and> doubles (snd (do_getF (sample_ext 0 0 0) sample_perms sample_E sample_QR None 0 0
        sample_mem)) ! 3 ! nat 1 = 2 * 2 + 2 * 2"
  using explained_variance_entry [OF sample_run_first [of 0], of 1]
    explained_variance_entry [OF sample_run_plain [of 0], of 1]
  by (simp add: sample_run_first sample_run_plain sample_fitted_first sample_fitted_plain
      sample_first_singular_value sample_shapes eval_nat_numeral)

section \<open>The claim about the residual variance\<close>

text \<open>
  Claim C3.  Let \<^verbatim>\<open>do_getF\<close> return the table \<open>ans\<close> for a response matrix that is
  allocated, and let \<open>k\<close> be a row of the permutation matrix.  Row \<open>k\<close> of column 1 of the
  table is the entry \<open>k + nperm\<close> of the array.  If \<open>isPartial\<close> or \<open>first\<close> is set,
  it is the sum of the squares of all \<open>nr * nc\<close> entries of the buffer \<^verbatim>\<open>resid\<close> as
  round \<open>k\<close> of the loop has it after the projections.  If neither is set, it was never
  written: it is what the allocation of the table left there.
\<close>

theorem residual_variance_entry:
  fixes h :: "('a::{comm_monoid_add,times}) mem"
  assumes "do_getF ext perms E QR QZ first isPartial h = (Inr ans, h')"
    and "addr E < length (doubles h)"
    and "0 \<le> k" and "k < nrows perms"
  shows "doubles h' ! addr ans ! nat (k + nrows perms) =
      (if isPartial \<noteq> 0 \<or> first \<noteq> 0
       then (\<Sum>i<nat (nrows E * ncols E).
               resid_at ext perms E QR QZ first isPartial k h ! i
             * resid_at ext perms E QR QZ first isPartial k h ! i)
       else fresh_double ext (addr ans) (nat (k + nrows perms)))"
proof (cases "isPartial \<noteq> 0 \<or> first \<noteq> 0")
  case True
  from do_getF_entries(2) [OF assms True] True show ?thesis by simp
next
  case False
  then have "isPartial = 0" and "first = 0" by simp_all
  from do_getF_entries(3) [OF assms this] False show ?thesis by simp
qed

theorem residual_variance_entry_witness:
  "fst (do_getF (sample_ext 0 0 0) sample_perms sample_E sample_QR None 1 0 sample_mem)
     = Inr \<lparr>addr = 3, nrows = 2, ncols = 2\<rparr>
   \<and> addr sample_E < length (doubles sample_mem) \<and> (1 :: int) < nrows sample_perms
   \<and> resid_at (sample_ext 0 0 0) sample_perms sample_E sample_QR None 1 0 1 sample_mem
       = [- 1, 1]
   \<and> doubles (snd (do_getF (sample_ext 0 0 0) sample_perms sample_E sample_QR None 1 0
        sample_mem)) ! 3 ! nat (1 + nrows sample_perms) = (- 1) * (- 1) + 1 * 1
   \<and> fst (do_getF (sample_ext 0 0 0) sample_perms sample_E sample_QR (Some sample_QR) 0 1
        sample_mem) = Inr \<lparr>addr = 3, nrows = 2, ncols = 2\<rparr>
   \<and> resid_at (sample_ext 0 0 0) sample_perms sample_E sample_QR (Some sample_QR) 0 1 1
        sample_mem = [- 1, 1]
   \<and> doubles (snd (do_getF (sample_ext 0 0 0) sample_perms sample_E sample_QR (Some sample_QR)
        0 1 sample_mem)) ! 3 ! nat (1 + nrows sample_perms) = (- 1) * (- 1) + 1 * 1
   \<and> fst (do_getF (sample_ext 0 0 0) sample_perms sample_E sample_QR None 0 0 sample_mem)
     = Inr \<lparr>addr = 3, nrows = 2, ncols = 2\<rparr>
   \<and> doubles (snd (do_getF (sample_ext 0 0 0) sample_perms sample_E sample_QR None 0 0
        sample_mem)) ! 3 ! nat (1 + nrows sample_perms)
       = fresh_double (sample_ext 0 0 0) 3 (nat (1 + nrows sample_perms))"
  using residual_variance_entry [OF sample_run_first [of 0], of 1]
    residual_variance_entry [OF sample_run_partial [of 0], of 1]
    residual_variance_entry [OF sample_run_plain [of 0], of 1]
  by (simp add: sample_run_first sample_run_partial sample_run_plain sample_resid_first
      sample_resid_partial sample_shapes sample_fresh_double eval_nat_numeral)

end
